theory Spec2Isabelle
  imports Complex_Main
begin

section \<open>Configuration constants (config/GameConfig.ts)\<close>

definition GRENADE_INITIAL_COUNT :: int where "GRENADE_INITIAL_COUNT = 10"
definition GRENADE_EXPLOSION_RADIUS :: real where "GRENADE_EXPLOSION_RADIUS = 80"

definition SOLDIER_POINTS :: int where "SOLDIER_POINTS = 100"
definition TANK_POINTS :: int where "TANK_POINTS = 300"
definition JEEP_POINTS :: int where "JEEP_POINTS = 200"
definition KNIFE_SOLDIER_POINTS :: int where "KNIFE_SOLDIER_POINTS = 150"
definition ROCKET_LAUNCHER_POINTS :: int where "ROCKET_LAUNCHER_POINTS = 250"
definition COVERED_SOLDIER_POINTS :: int where "COVERED_SOLDIER_POINTS = 175"
definition BUNKER_POINTS :: int where "BUNKER_POINTS = 400"
definition BOSS_POINTS :: int where "BOSS_POINTS = 1000"

definition COVERED_SOLDIER_SPEED :: real where "COVERED_SOLDIER_SPEED = 100"
definition COVERED_SOLDIER_HEALTH :: int where "COVERED_SOLDIER_HEALTH = 2"
definition BOSS_SPEED :: real where "BOSS_SPEED = 60"
definition BOSS_HEALTH :: int where "BOSS_HEALTH = 20"

definition ENEMY_SPAWN_RATE_INITIAL :: real where "ENEMY_SPAWN_RATE_INITIAL = 1200"
definition ENEMY_SPAWN_RATE_MIN :: real where "ENEMY_SPAWN_RATE_MIN = 400"

section \<open>Enemies (entities/enemies)\<close>

text \<open>
  \<open>EnemyType\<close> is a string-valued TypeScript enum; its members are the strings below.
  A value outside the enum is any other string, which is what the \<open>default\<close> branch of
  \<open>getPointsForEnemy\<close> sees.
\<close>

type_synonym EnemyType = string

definition SOLDIER :: EnemyType where "SOLDIER = ''SOLDIER''"
definition TANK :: EnemyType where "TANK = ''TANK''"
definition JEEP :: EnemyType where "JEEP = ''JEEP''"
definition KNIFE_SOLDIER :: EnemyType where "KNIFE_SOLDIER = ''KNIFE_SOLDIER''"
definition ROCKET_LAUNCHER :: EnemyType where "ROCKET_LAUNCHER = ''ROCKET_LAUNCHER''"
definition COVERED_SOLDIER :: EnemyType where "COVERED_SOLDIER = ''COVERED_SOLDIER''"
definition BUNKER :: EnemyType where "BUNKER = ''BUNKER''"
definition BOSS :: EnemyType where "BOSS = ''BOSS''"

text \<open>
  A Phaser sprite, as far as the simulation reads and writes it: its position and its
  tint (\<open>None\<close> after \<open>clearTint\<close>).
\<close>

record Sprite =
  sx :: real
  sy :: real
  tint :: "int option"

text \<open>
  The fields a subclass adds to \<open>Enemy\<close> and that its \<open>takeDamage\<close> override reads or
  writes. \<open>Plain\<close> stands for every subclass that inherits \<open>takeDamage\<close> unchanged
  (Soldier, Tank, Jeep, KnifeSoldier, RocketLauncher, Bunker).
\<close>

datatype Subclass =
    Plain
  | CoveredSoldierC (inCover: bool)
  | BossC (phase: int) (maxHealth: int)

record Enemy =
  sprite :: Sprite
  speed :: real
  health :: int
  etype :: EnemyType
  cls :: Subclass

text \<open>\<open>Enemy.takeDamage\<close>: \<open>this.health--; return this.health <= 0;\<close>\<close>

definition Enemy_takeDamage :: "Enemy \<Rightarrow> bool \<times> Enemy" where
  "Enemy_takeDamage e =
     (let e1 = e\<lparr>health := health e - 1\<rparr> in (health e1 \<le> 0, e1))"

text \<open>
  \<open>CoveredSoldier.takeDamage\<close>. \<open>roll\<close> is the value \<open>Math.random()\<close> returns; it is
  drawn only when the soldier is in cover.
\<close>

definition CoveredSoldier_takeDamage :: "real \<Rightarrow> bool \<Rightarrow> Enemy \<Rightarrow> bool \<times> Enemy" where
  "CoveredSoldier_takeDamage roll cover e =
     (if cover \<and> roll < 0.5 then (False, e)
      else (let e1 = e\<lparr>health := health e - 1\<rparr> in (health e1 \<le> 0, e1)))"

text \<open>
  \<open>Boss.takeDamage\<close>. \<open>healthPercent\<close> is the quotient \<open>this.health / this.maxHealth\<close>;
  the tints are \<open>0xff00ff\<close> and \<open>0xff6600\<close>.
\<close>

definition Boss_takeDamage :: "int \<Rightarrow> int \<Rightarrow> Enemy \<Rightarrow> bool \<times> Enemy" where
  "Boss_takeDamage ph mh e =
     (let e1 = e\<lparr>health := health e - 1\<rparr>;
          healthPercent = real_of_int (health e1) / real_of_int mh;
          e2 = (if healthPercent \<le> 0.33 \<and> ph \<noteq> 3
                then e1\<lparr>cls := BossC 3 mh,
                        sprite := (sprite e1)\<lparr>tint := Some 16711935\<rparr>,
                        speed := BOSS_SPEED * 1.5\<rparr>
                else if healthPercent \<le> 0.66 \<and> ph \<noteq> 2
                then e1\<lparr>cls := BossC 2 mh,
                        sprite := (sprite e1)\<lparr>tint := Some 16737792\<rparr>,
                        speed := BOSS_SPEED * 1.2\<rparr>
                else e1)
      in (health e2 \<le> 0, e2))"

text \<open>
  The call \<open>enemy.takeDamage()\<close>, dispatched on the object's class. \<open>roll\<close> is the next
  value of \<open>Math.random()\<close>; the second component tells whether the call drew it.
\<close>

definition takeDamage :: "real \<Rightarrow> Enemy \<Rightarrow> (bool \<times> Enemy) \<times> bool" where
  "takeDamage roll e =
     (case cls e of
        Plain \<Rightarrow> (Enemy_takeDamage e, False)
      | CoveredSoldierC c \<Rightarrow> (CoveredSoldier_takeDamage roll c e, c)
      | BossC ph mh \<Rightarrow> (Boss_takeDamage ph mh e, False))"

text \<open>The constructors of \<open>Boss\<close> and \<open>CoveredSoldier\<close> (tint \<open>0xff0000\<close>, \<open>0x888888\<close>).\<close>

definition Boss_new :: "real \<Rightarrow> real \<Rightarrow> Enemy" where
  "Boss_new x y =
     \<lparr>sprite = \<lparr>sx = x, sy = y, tint = Some 16711680\<rparr>, speed = BOSS_SPEED,
      health = BOSS_HEALTH, etype = BOSS, cls = BossC 1 BOSS_HEALTH\<rparr>"

definition CoveredSoldier_new :: "real \<Rightarrow> real \<Rightarrow> Enemy" where
  "CoveredSoldier_new x y =
     \<lparr>sprite = \<lparr>sx = x, sy = y, tint = Some 8947848\<rparr>, speed = COVERED_SOLDIER_SPEED,
      health = COVERED_SOLDIER_HEALTH, etype = COVERED_SOLDIER,
      cls = CoveredSoldierC False\<rparr>"

text \<open>
  A subclass that inherits \<open>takeDamage\<close>, built by the base constructor
  \<open>Enemy(scene, x, y, texture, speed, health, type)\<close>.
\<close>

definition Enemy_new :: "real \<Rightarrow> real \<Rightarrow> real \<Rightarrow> int \<Rightarrow> EnemyType \<Rightarrow> Enemy" where
  "Enemy_new x y spd h t =
     \<lparr>sprite = \<lparr>sx = x, sy = y, tint = None\<rparr>, speed = spd, health = h, etype = t,
      cls = Plain\<rparr>"

text \<open>The phase of a boss object (\<open>0\<close> for an enemy that is not a boss).\<close>

definition phaseOf :: "Enemy \<Rightarrow> int" where
  "phaseOf e = (case cls e of BossC ph mh \<Rightarrow> ph | _ \<Rightarrow> 0)"

text \<open>
  \<open>n\<close> successive \<open>takeDamage()\<close> calls on one enemy object: for each call, in call
  order, the value it returned and the object after it. \<open>rnd k\<close> is the value of the
  \<open>k\<close>-th \<open>Math.random()\<close> draw and \<open>k\<close> counts the draws made so far.
\<close>

fun takeDamageRun :: "nat \<Rightarrow> (nat \<Rightarrow> real) \<Rightarrow> nat \<Rightarrow> Enemy \<Rightarrow> (bool \<times> Enemy) list" where
  "takeDamageRun 0 rnd k e = []"
| "takeDamageRun (Suc n) rnd k e =
     (let ((d, e1), used) = takeDamage (rnd k) e
      in (d, e1) # takeDamageRun n rnd (if used then Suc k else k) e1)"

section \<open>Projectiles, power-ups and the player (entities)\<close>

record Bullet =
  bsprite :: Sprite

record Grenade =
  gsprite :: Sprite
  explosionRadius :: real
  hasExploded :: bool
  shouldDestroy :: bool

record Player =
  psprite :: Sprite
  grenadeCount :: int
  lastGrenadeThrow :: real
  isInvincible :: bool
  invincibilityEndTime :: real
  isDead :: bool
  speedBoostActive :: bool
  speedBoostMultiplier :: real
  speedBoostEndTime :: real
  weaponUpgradeActive :: bool
  weaponUpgradeMultiplier :: real
  weaponUpgradeEndTime :: real

definition grenadeThrowRate :: real where "grenadeThrowRate = 300"

text \<open>The player as the constructor leaves it, at position \<open>(x, y)\<close>.\<close>

definition Player_new :: "real \<Rightarrow> real \<Rightarrow> Player" where
  "Player_new x y =
     \<lparr>psprite = \<lparr>sx = x, sy = y, tint = None\<rparr>, grenadeCount = GRENADE_INITIAL_COUNT,
      lastGrenadeThrow = 0, isInvincible = False, invincibilityEndTime = 0, isDead = False,
      speedBoostActive = False, speedBoostMultiplier = 1, speedBoostEndTime = 0,
      weaponUpgradeActive = False, weaponUpgradeMultiplier = 1, weaponUpgradeEndTime = 0\<rparr>"

text \<open>
  \<open>Grenade(scene, x, y)\<close> as \<open>throwGrenade\<close> calls it; the velocity and the throw time
  play no part in the properties below.
\<close>

definition Grenade_new :: "real \<Rightarrow> real \<Rightarrow> Grenade" where
  "Grenade_new x y =
     \<lparr>gsprite = \<lparr>sx = x, sy = y, tint = None\<rparr>, explosionRadius = GRENADE_EXPLOSION_RADIUS,
      hasExploded = False, shouldDestroy = False\<rparr>"

text \<open>
  \<open>Player.throwGrenade(time)\<close>: the grenade thrown, or \<open>None\<close> for \<open>null\<close>, and the
  player afterwards.
\<close>

definition throwGrenade :: "real \<Rightarrow> Player \<Rightarrow> Grenade option \<times> Player" where
  "throwGrenade time p =
     (if grenadeCount p > 0 \<and> time > lastGrenadeThrow p + grenadeThrowRate
      then (Some (Grenade_new (sx (psprite p)) (sy (psprite p) - 10)),
            p\<lparr>lastGrenadeThrow := time, grenadeCount := grenadeCount p - 1\<rparr>)
      else (None, p))"

definition addGrenades :: "int \<Rightarrow> Player \<Rightarrow> Player" where
  "addGrenades count p = p\<lparr>grenadeCount := grenadeCount p + count\<rparr>"

definition activateInvincibility :: "real \<Rightarrow> real \<Rightarrow> Player \<Rightarrow> Player" where
  "activateInvincibility duration currentTime p =
     p\<lparr>isInvincible := True, invincibilityEndTime := currentTime + duration\<rparr>"

definition activateSpeedBoost :: "real \<Rightarrow> real \<Rightarrow> real \<Rightarrow> Player \<Rightarrow> Player" where
  "activateSpeedBoost multiplier duration currentTime p =
     p\<lparr>speedBoostActive := True, speedBoostMultiplier := multiplier,
       speedBoostEndTime := currentTime + duration\<rparr>"

definition activateWeaponUpgrade :: "real \<Rightarrow> real \<Rightarrow> real \<Rightarrow> Player \<Rightarrow> Player" where
  "activateWeaponUpgrade multiplier duration currentTime p =
     p\<lparr>weaponUpgradeActive := True, weaponUpgradeMultiplier := multiplier,
       weaponUpgradeEndTime := currentTime + duration\<rparr>"

text \<open>The calls a client makes on the player's grenade stock, and a run of them.\<close>

datatype GrenadeOp = Throw real | Add int

fun grenadeOp :: "GrenadeOp \<Rightarrow> Player \<Rightarrow> Player" where
  "grenadeOp (Throw time) p = snd (throwGrenade time p)"
| "grenadeOp (Add count) p = addGrenades count p"

fun grenadeOps :: "GrenadeOp list \<Rightarrow> Player \<Rightarrow> Player" where
  "grenadeOps [] p = p"
| "grenadeOps (c # cs) p = grenadeOps cs (grenadeOp c p)"

fun addsNonNegative :: "GrenadeOp \<Rightarrow> bool" where
  "addsNonNegative (Throw time) = True"
| "addsNonNegative (Add count) = (0 \<le> count)"

datatype PowerUpType = GRENADE_PACK | SPEED_BOOST | SHIELD | WEAPON_UPGRADE

record PowerUp =
  usprite :: Sprite
  ptype :: PowerUpType
  collected :: bool

text \<open>
  \<open>powerUp.apply(player)\<close>, one override per subclass, with the constants each subclass
  holds; \<open>now\<close> is \<open>scene.time.now\<close>.
\<close>

fun PowerUp_apply :: "real \<Rightarrow> PowerUpType \<Rightarrow> Player \<Rightarrow> Player" where
  "PowerUp_apply now GRENADE_PACK p = addGrenades 5 p"
| "PowerUp_apply now SPEED_BOOST p = activateSpeedBoost 1.5 10000 now p"
| "PowerUp_apply now SHIELD p = activateInvincibility 8000 now p"
| "PowerUp_apply now WEAPON_UPGRADE p = activateWeaponUpgrade 0.5 15000 now p"

section \<open>Collision system (systems/CollisionSystem.ts)\<close>

definition getPointsForEnemy :: "EnemyType \<Rightarrow> int" where
  "getPointsForEnemy t =
     (if t = SOLDIER then SOLDIER_POINTS
      else if t = TANK then TANK_POINTS
      else if t = JEEP then JEEP_POINTS
      else if t = KNIFE_SOLDIER then KNIFE_SOLDIER_POINTS
      else if t = ROCKET_LAUNCHER then ROCKET_LAUNCHER_POINTS
      else if t = COVERED_SOLDIER then COVERED_SOLDIER_POINTS
      else if t = BUNKER then BUNKER_POINTS
      else if t = BOSS then BOSS_POINTS
      else 100)"

text \<open>
  What \<open>checkCollisions\<close> does to its collaborators, in the order it does it. A bullet
  or grenade is named by its index in the array passed in: the bullet loop runs from
  the last index down and splices out only the index it is at, so the index of a bullet
  that is still to be visited never changes; grenades are never spliced. Enemies are
  recorded as the object itself: before the call for \<open>Damage\<close> and \<open>BulletTested\<close>,
  after it for \<open>Destroyed\<close>. Calls into the particle emitter and the sound system
  return nothing and touch no simulation state; they are not recorded.
\<close>

datatype Source = ByBullet nat | ByGrenade nat

datatype Event =
    BulletTested nat Enemy
  | BulletDestroyed nat
  | Damage Source Enemy
  | BossDefeated
  | Destroyed Enemy
  | ScoreUpdate int int
  | GameOver
  | Applied nat
  | Collected nat
  | GrenadeCountUpdate int

text \<open>
  The arrays and the player the call works on, the two counters of the
  \<open>CollisionSystem\<close> object, the number of \<open>Math.random()\<close> draws made, and the record of
  calls made so far.
\<close>

record World =
  bullets :: "Bullet list"
  grenades :: "Grenade list"
  enemies :: "Enemy list"
  powerUps :: "PowerUp list"
  player :: Player
  score :: int
  kills :: int
  drawn :: nat
  events :: "Event list"

text \<open>\<open>xs.splice(i, 1)\<close>\<close>

definition splice1 :: "nat \<Rightarrow> 'a list \<Rightarrow> 'a list" where
  "splice1 i xs = take i xs @ drop (Suc i) xs"

definition emit :: "Event \<Rightarrow> World \<Rightarrow> World" where
  "emit ev w = w\<lparr>events := events w @ [ev]\<rparr>"

text \<open>\<open>Phaser.Math.Distance.Between\<close>\<close>

definition Distance_Between :: "real \<Rightarrow> real \<Rightarrow> real \<Rightarrow> real \<Rightarrow> real" where
  "Distance_Between x1 y1 x2 y2 = sqrt ((x1 - x2) * (x1 - x2) + (y1 - y2) * (y1 - y2))"

text \<open>
  The block both loops run once an enemy at index \<open>j\<close> is hit: \<open>enemy.takeDamage()\<close>
  and, when it returns true, the boss check, the score and kill counters, the removal
  of the enemy and the score callback. \<open>cb\<close> tells whether the optional
  \<open>onBossDefeated\<close> was passed.
\<close>

definition hitEnemy :: "bool \<Rightarrow> (nat \<Rightarrow> real) \<Rightarrow> Source \<Rightarrow> nat \<Rightarrow> World \<Rightarrow> World" where
  "hitEnemy cb rnd src j w =
     (let enemy = enemies w ! j;
          ((destroyed, enemy1), used) = takeDamage (rnd (drawn w)) enemy;
          w1 = (emit (Damage src enemy) w)
                 \<lparr>drawn := (if used then Suc (drawn w) else drawn w),
                  enemies := (enemies w)[j := enemy1]\<rparr>
      in if destroyed
         then (let enemyType = etype enemy1;
                   w2 = (if enemyType = BOSS \<and> cb then emit BossDefeated w1 else w1);
                   points = getPointsForEnemy enemyType;
                   w3 = w2\<lparr>score := score w2 + points, kills := kills w2 + 1\<rparr>;
                   w4 = (emit (Destroyed enemy1) w3)\<lparr>enemies := splice1 j (enemies w3)\<rparr>
               in emit (ScoreUpdate (score w4) (kills w4)) w4)
         else w1)"

text \<open>
  The inner loop of the bullet pass, for the bullet at index \<open>i\<close>: \<open>j\<close> runs from
  \<open>n - 1\<close> down to \<open>0\<close> and the loop is left at the first overlap. \<open>ov\<close> is
  \<open>scene.physics.overlap\<close>.
\<close>

fun scanEnemies ::
  "(Sprite \<Rightarrow> Sprite \<Rightarrow> bool) \<Rightarrow> bool \<Rightarrow> (nat \<Rightarrow> real) \<Rightarrow> nat \<Rightarrow> Sprite \<Rightarrow> nat \<Rightarrow> World \<Rightarrow> World" where
  "scanEnemies ov cb rnd i bulletSprite 0 w = w"
| "scanEnemies ov cb rnd i bulletSprite (Suc j) w =
     (let enemy = enemies w ! j;
          w1 = emit (BulletTested i enemy) w
      in if ov bulletSprite (sprite enemy)
         then hitEnemy cb rnd (ByBullet i) j
                ((emit (BulletDestroyed i) w1)\<lparr>bullets := splice1 i (bullets w1)\<rparr>)
         else scanEnemies ov cb rnd i bulletSprite j w1)"

text \<open>One turn of the bullet pass, at index \<open>i\<close>.\<close>

definition visitBullet ::
  "(Sprite \<Rightarrow> Sprite \<Rightarrow> bool) \<Rightarrow> bool \<Rightarrow> (nat \<Rightarrow> real) \<Rightarrow> nat \<Rightarrow> World \<Rightarrow> World" where
  "visitBullet ov cb rnd i w =
     scanEnemies ov cb rnd i (bsprite (bullets w ! i)) (length (enemies w)) w"

text \<open>The bullet pass: \<open>i\<close> runs from \<open>n - 1\<close> down to \<open>0\<close>.\<close>

fun bulletLoop ::
  "(Sprite \<Rightarrow> Sprite \<Rightarrow> bool) \<Rightarrow> bool \<Rightarrow> (nat \<Rightarrow> real) \<Rightarrow> nat \<Rightarrow> World \<Rightarrow> World" where
  "bulletLoop ov cb rnd 0 w = w"
| "bulletLoop ov cb rnd (Suc i) w = bulletLoop ov cb rnd i (visitBullet ov cb rnd i w)"

text \<open>The blast of the grenade at index \<open>i\<close>: every enemy is looked at, last index first.\<close>

definition inBlast :: "Grenade \<Rightarrow> Enemy \<Rightarrow> bool" where
  "inBlast g e =
     (Distance_Between (sx (gsprite g)) (sy (gsprite g)) (sx (sprite e)) (sy (sprite e))
        \<le> explosionRadius g)"

fun blastEnemies :: "bool \<Rightarrow> (nat \<Rightarrow> real) \<Rightarrow> nat \<Rightarrow> Grenade \<Rightarrow> nat \<Rightarrow> World \<Rightarrow> World" where
  "blastEnemies cb rnd i grenade 0 w = w"
| "blastEnemies cb rnd i grenade (Suc j) w =
     blastEnemies cb rnd i grenade j
       (if inBlast grenade (enemies w ! j) then hitEnemy cb rnd (ByGrenade i) j w else w)"

text \<open>One turn of the grenade pass, at index \<open>i\<close>: only an exploded grenade blasts.\<close>

definition visitGrenade :: "bool \<Rightarrow> (nat \<Rightarrow> real) \<Rightarrow> nat \<Rightarrow> World \<Rightarrow> World" where
  "visitGrenade cb rnd i w =
     (let grenade = grenades w ! i
      in if hasExploded grenade
         then blastEnemies cb rnd i grenade (length (enemies w)) w
         else w)"

fun grenadeLoop :: "bool \<Rightarrow> (nat \<Rightarrow> real) \<Rightarrow> nat \<Rightarrow> World \<Rightarrow> World" where
  "grenadeLoop cb rnd 0 w = w"
| "grenadeLoop cb rnd (Suc i) w = grenadeLoop cb rnd i (visitGrenade cb rnd i w)"

text \<open>The \<open>for ... of\<close> loop of the player pass: is there an enemy the player overlaps?\<close>

fun playerTouches :: "(Sprite \<Rightarrow> Sprite \<Rightarrow> bool) \<Rightarrow> Sprite \<Rightarrow> Enemy list \<Rightarrow> bool" where
  "playerTouches ov playerSprite [] = False"
| "playerTouches ov playerSprite (enemy # rest) =
     (if ov playerSprite (sprite enemy) then True else playerTouches ov playerSprite rest)"

text \<open>The power-up pass: last index first, left at the first overlap.\<close>

fun collectLoop :: "(Sprite \<Rightarrow> Sprite \<Rightarrow> bool) \<Rightarrow> real \<Rightarrow> nat \<Rightarrow> World \<Rightarrow> World" where
  "collectLoop ov now 0 w = w"
| "collectLoop ov now (Suc i) w =
     (let powerUp = powerUps w ! i
      in if ov (psprite (player w)) (usprite powerUp)
         then (let w1 = (emit (Applied i) w)\<lparr>player := PowerUp_apply now (ptype powerUp) (player w)\<rparr>;
                   w2 = (emit (Collected i) w1)
                          \<lparr>powerUps := (powerUps w1)[i := powerUp\<lparr>collected := True\<rparr>]\<rparr>
               in emit (GrenadeCountUpdate (grenadeCount (player w2))) w2)
         else collectLoop ov now i w)"

text \<open>
  \<open>CollisionSystem.checkCollisions\<close>. The four callbacks are recorded as \<open>ScoreUpdate\<close>,
  \<open>GameOver\<close>, \<open>GrenadeCountUpdate\<close> and \<open>BossDefeated\<close>.
\<close>

definition checkCollisions ::
  "(Sprite \<Rightarrow> Sprite \<Rightarrow> bool) \<Rightarrow> bool \<Rightarrow> (nat \<Rightarrow> real) \<Rightarrow> real \<Rightarrow> World \<Rightarrow> World" where
  "checkCollisions ov cb rnd now w =
     (let w1 = bulletLoop ov cb rnd (length (bullets w)) w;
          w2 = grenadeLoop cb rnd (length (grenades w1)) w1
      in if \<not> isInvincible (player w2) \<and> \<not> isDead (player w2)
            \<and> playerTouches ov (psprite (player w2)) (enemies w2)
         then emit GameOver w2
         else collectLoop ov now (length (powerUps w2)) w2)"

text \<open>The calls made during one \<open>checkCollisions\<close>, oldest first.\<close>

definition trace ::
  "(Sprite \<Rightarrow> Sprite \<Rightarrow> bool) \<Rightarrow> bool \<Rightarrow> (nat \<Rightarrow> real) \<Rightarrow> real \<Rightarrow> World \<Rightarrow> Event list" where
  "trace ov cb rnd now w = drop (length (events w)) (events (checkCollisions ov cb rnd now w))"

section \<open>Spawn system (systems/SpawnSystem.ts)\<close>

record SpawnSystem =
  lastEnemySpawn :: real
  enemySpawnRate :: real
  lastPowerUpSpawn :: real
  powerUpSpawnRate :: real

definition SpawnSystem_new :: SpawnSystem where
  "SpawnSystem_new =
     \<lparr>lastEnemySpawn = 0, enemySpawnRate = ENEMY_SPAWN_RATE_INITIAL,
      lastPowerUpSpawn = 0, powerUpSpawnRate = 15000\<rparr>"

definition shouldSpawn :: "real \<Rightarrow> SpawnSystem \<Rightarrow> bool" where
  "shouldSpawn time s = (time > lastEnemySpawn s + enemySpawnRate s)"

definition shouldSpawnPowerUp :: "real \<Rightarrow> SpawnSystem \<Rightarrow> bool" where
  "shouldSpawnPowerUp time s = (time > lastPowerUpSpawn s + powerUpSpawnRate s)"

text \<open>
  \<open>SpawnSystem.update\<close>, as far as the object's own fields go. \<open>spawnEnemies\<close> and
  \<open>spawnPowerUp\<close> append to the arrays they are handed and touch no field of the
  spawn system.
\<close>

definition SpawnSystem_update :: "real \<Rightarrow> real \<Rightarrow> SpawnSystem \<Rightarrow> SpawnSystem" where
  "SpawnSystem_update time mapProgress s =
     (let s1 = (if shouldSpawn time s
                then s\<lparr>lastEnemySpawn := time,
                       enemySpawnRate :=
                         max ENEMY_SPAWN_RATE_MIN (ENEMY_SPAWN_RATE_INITIAL - mapProgress / 10)\<rparr>
                else s)
      in if shouldSpawnPowerUp time s1 then s1\<lparr>lastPowerUpSpawn := time\<rparr> else s1)"

text \<open>The class \<open>createRandomEnemy\<close> instantiates; \<open>roll\<close> is its \<open>Math.random()\<close> draw.\<close>

datatype EnemyClass =
  Soldier | Jeep | Tank | KnifeSoldier | CoveredSoldier | RocketLauncher | Bunker | Boss

definition createRandomEnemy :: "real \<Rightarrow> real \<Rightarrow> EnemyClass" where
  "createRandomEnemy roll mapProgress =
     (if mapProgress < 100 then
        (if roll < 0.60 then Soldier
         else if roll < 0.85 then Jeep
         else Tank)
      else if mapProgress < 200 then
        (if roll < 0.40 then Soldier
         else if roll < 0.60 then Jeep
         else if roll < 0.75 then Tank
         else if roll < 0.90 then KnifeSoldier
         else CoveredSoldier)
      else if mapProgress < 300 then
        (if roll < 0.30 then Soldier
         else if roll < 0.45 then Jeep
         else if roll < 0.60 then Tank
         else if roll < 0.75 then KnifeSoldier
         else if roll < 0.85 then CoveredSoldier
         else if roll < 0.95 then RocketLauncher
         else Bunker)
      else
        (if roll < 0.25 then Soldier
         else if roll < 0.35 then Jeep
         else if roll < 0.45 then Tank
         else if roll < 0.60 then KnifeSoldier
         else if roll < 0.70 then CoveredSoldier
         else if roll < 0.85 then RocketLauncher
         else if roll < 0.95 then Bunker
         else Boss))"

text \<open>
  A band of the unit interval: the draws from \<open>start\<close> up to, not including,
  \<open>start + width\<close>. A uniform draw falls into it with probability \<open>width\<close>.
\<close>

definition band :: "real \<Rightarrow> real \<Rightarrow> real \<Rightarrow> bool" where
  "band start width roll = (start \<le> roll \<and> roll < start + width)"

section \<open>Level system (systems/LevelSystem.ts)\<close>


















section \<open>Reading the record of a call\<close>

text \<open>The enemies whose \<open>takeDamage\<close> a given bullet or grenade invoked, in call order.\<close>

fun damaged :: "Source \<Rightarrow> Event list \<Rightarrow> Enemy list" where
  "damaged src [] = []"
| "damaged src (Damage s e # evs) = (if s = src then e # damaged src evs else damaged src evs)"
| "damaged src (ev # evs) = damaged src evs"

text \<open>The events that concern the bullet at index \<open>i\<close>.\<close>

fun aboutBullet :: "nat \<Rightarrow> Event \<Rightarrow> bool" where
  "aboutBullet i (BulletTested k e) = (k = i)"
| "aboutBullet i (BulletDestroyed k) = (k = i)"
| "aboutBullet i (Damage src e) = (src = ByBullet i)"
| "aboutBullet i ev = False"

text \<open>
  What the specification lets a bullet do with the enemies it meets, in the order it
  meets them: it is tested against one enemy after the other; at the first overlap it
  is removed, that enemy takes damage once, and nothing more happens to the bullet.
\<close>

fun bulletStory :: "(Sprite \<Rightarrow> Sprite \<Rightarrow> bool) \<Rightarrow> nat \<Rightarrow> Sprite \<Rightarrow> Enemy list \<Rightarrow> Event list" where
  "bulletStory ov i bulletSprite [] = []"
| "bulletStory ov i bulletSprite (e # es) =
     BulletTested i e #
       (if ov bulletSprite (sprite e) then [BulletDestroyed i, Damage (ByBullet i) e]
        else bulletStory ov i bulletSprite es)"

text \<open>
  The world after the bullet pass, and after the bullet and the grenade pass; the
  condition under which the player pass reports the player's death.
\<close>

definition afterBullets ::
  "(Sprite \<Rightarrow> Sprite \<Rightarrow> bool) \<Rightarrow> bool \<Rightarrow> (nat \<Rightarrow> real) \<Rightarrow> World \<Rightarrow> World" where
  "afterBullets ov cb rnd w = bulletLoop ov cb rnd (length (bullets w)) w"

definition afterGrenades ::
  "(Sprite \<Rightarrow> Sprite \<Rightarrow> bool) \<Rightarrow> bool \<Rightarrow> (nat \<Rightarrow> real) \<Rightarrow> World \<Rightarrow> World" where
  "afterGrenades ov cb rnd w =
     grenadeLoop cb rnd (length (grenades (afterBullets ov cb rnd w))) (afterBullets ov cb rnd w)"

definition playerHit :: "(Sprite \<Rightarrow> Sprite \<Rightarrow> bool) \<Rightarrow> World \<Rightarrow> bool" where
  "playerHit ov w =
     (\<not> isInvincible (player w) \<and> \<not> isDead (player w)
      \<and> playerTouches ov (psprite (player w)) (enemies w))"

text \<open>
  The world when the bullet pass arrives at index \<open>i\<close>, the indices above \<open>i\<close>
  visited; and the world when the grenade pass arrives at index \<open>i\<close>, the bullet pass
  done and the grenades above \<open>i\<close> visited.
\<close>

definition beforeBullet ::
  "(Sprite \<Rightarrow> Sprite \<Rightarrow> bool) \<Rightarrow> bool \<Rightarrow> (nat \<Rightarrow> real) \<Rightarrow> nat \<Rightarrow> World \<Rightarrow> World" where
  "beforeBullet ov cb rnd i w =
     fold (visitBullet ov cb rnd) (rev [Suc i ..< length (bullets w)]) w"

definition beforeGrenade ::
  "(Sprite \<Rightarrow> Sprite \<Rightarrow> bool) \<Rightarrow> bool \<Rightarrow> (nat \<Rightarrow> real) \<Rightarrow> nat \<Rightarrow> World \<Rightarrow> World" where
  "beforeGrenade ov cb rnd i w =
     fold (visitGrenade cb rnd) (rev [Suc i ..< length (grenades w)]) (afterBullets ov cb rnd w)"

text \<open>
  A bullet of the array passed in, with its index, is unhit when the record holds no
  \<open>takeDamage\<close> call of its making.
\<close>

definition unhit :: "Event list \<Rightarrow> nat \<times> Bullet \<Rightarrow> bool" where
  "unhit evs ib = (damaged (ByBullet (fst ib)) evs = [])"

text \<open>The enemies destroyed, in order, and the events of a pick-up.\<close>

fun destroyedIn :: "Event list \<Rightarrow> Enemy list" where
  "destroyedIn [] = []"
| "destroyedIn (Destroyed e # evs) = e # destroyedIn evs"
| "destroyedIn (ev # evs) = destroyedIn evs"

fun isPickup :: "Event \<Rightarrow> bool" where
  "isPickup (Applied i) = True"
| "isPickup (Collected i) = True"
| "isPickup (GrenadeCountUpdate n) = True"
| "isPickup ev = False"

text \<open>The events one step adds, and the statement that a step only adds events.\<close>

definition newEvents :: "World \<Rightarrow> World \<Rightarrow> Event list" where
  "newEvents w w' = drop (length (events w)) (events w')"

definition extends :: "World \<Rightarrow> World \<Rightarrow> bool" where
  "extends w w' = (take (length (events w)) (events w') = events w)"

text \<open>The events of the player pass and the power-up pass.\<close>

definition lastEvents ::
  "(Sprite \<Rightarrow> Sprite \<Rightarrow> bool) \<Rightarrow> bool \<Rightarrow> (nat \<Rightarrow> real) \<Rightarrow> real \<Rightarrow> World \<Rightarrow> Event list" where
  "lastEvents ov cb rnd now w =
     newEvents (afterGrenades ov cb rnd w) (checkCollisions ov cb rnd now w)"

text \<open>
  The points a record awards and the bosses it destroys; and what every step of the
  bullet and grenade passes keeps: it only adds events, the two counters grow by what
  the new \<open>Destroyed\<close> events say, \<open>onBossDefeated\<close> is called once per boss destroyed
  when it was passed, and neither the player, the power-ups, the grenades nor the
  player's death are touched.
\<close>

definition points :: "Event list \<Rightarrow> int" where
  "points evs = sum_list (map (getPointsForEnemy \<circ> etype) (destroyedIn evs))"

definition bossKills :: "Event list \<Rightarrow> nat" where
  "bossKills evs = length (filter (\<lambda>e. etype e = BOSS) (destroyedIn evs))"

definition scoredStep :: "bool \<Rightarrow> World \<Rightarrow> World \<Rightarrow> bool" where
  "scoredStep cb w w' =
     (extends w w'
      \<and> score w' = score w + points (newEvents w w')
      \<and> kills w' = kills w + int (length (destroyedIn (newEvents w w')))
      \<and> count_list (newEvents w w') BossDefeated = (if cb then bossKills (newEvents w w') else 0)
      \<and> GameOver \<notin> set (newEvents w w')
      \<and> filter isPickup (newEvents w w') = []
      \<and> grenades w' = grenades w \<and> powerUps w' = powerUps w \<and> player w' = player w)"

text \<open>
  What the \<open>takeDamage\<close> calls of a record award, read from the record alone. \<open>outcome\<close>
  is one call on the enemy as the \<open>Damage\<close> event holds it, with the draw counter, the
  score and the kill count before and after: the counters move only when the call
  returns true. \<open>tally\<close> runs the counters along the \<open>Damage\<close> events of a record.
  \<open>awarded\<close> lists what must follow each call that returns true, and nothing for a
  call that returns false: the boss callback when the enemy is a boss and the callback
  was passed, the destruction of the enemy, and the score callback with the counters
  raised by the enemy's points and by one kill. \<open>isAward\<close> picks those three kinds of
  event out of a record.
\<close>

fun isAward :: "Event \<Rightarrow> bool" where
  "isAward BossDefeated = True"
| "isAward (Destroyed e) = True"
| "isAward (ScoreUpdate s k) = True"
| "isAward ev = False"

definition outcome ::
  "(nat \<Rightarrow> real) \<Rightarrow> nat \<times> int \<times> int \<Rightarrow> Enemy \<Rightarrow> (bool \<times> Enemy) \<times> (nat \<times> int \<times> int)" where
  "outcome rnd c e =
     (let (k, sc, kl) = c;
          ((destroyed, e1), used) = takeDamage (rnd k) e
      in ((destroyed, e1),
          (if used then Suc k else k,
           if destroyed then sc + getPointsForEnemy (etype e1) else sc,
           if destroyed then kl + 1 else kl)))"

fun tally :: "(nat \<Rightarrow> real) \<Rightarrow> nat \<times> int \<times> int \<Rightarrow> Event list \<Rightarrow> nat \<times> int \<times> int" where
  "tally rnd c [] = c"
| "tally rnd c (Damage src e # evs) = tally rnd (snd (outcome rnd c e)) evs"
| "tally rnd c (ev # evs) = tally rnd c evs"

fun awarded :: "bool \<Rightarrow> (nat \<Rightarrow> real) \<Rightarrow> nat \<times> int \<times> int \<Rightarrow> Event list \<Rightarrow> Event list" where
  "awarded cb rnd c [] = []"
| "awarded cb rnd c (Damage src e # evs) =
     (let ((destroyed, e1), c1) = outcome rnd c e
      in (if destroyed
          then (if etype e1 = BOSS \<and> cb then [BossDefeated] else [])
               @ [Destroyed e1, ScoreUpdate (fst (snd c1)) (snd (snd c1))]
          else [])
         @ awarded cb rnd c1 evs)"
| "awarded cb rnd c (ev # evs) = awarded cb rnd c evs"

text \<open>The three counters of a world.\<close>

definition counters :: "World \<Rightarrow> nat \<times> int \<times> int" where
  "counters w = (drawn w, score w, kills w)"

text \<open>
  What every step of a call keeps: it only adds events; the award events it adds are
  the ones its \<open>takeDamage\<close> calls award, and the counters move as those calls say; the
  enemy array shrinks by one for each enemy destroyed; and when no enemy of the array
  was dead before, none is dead after.
\<close>

definition awardStep :: "bool \<Rightarrow> (nat \<Rightarrow> real) \<Rightarrow> World \<Rightarrow> World \<Rightarrow> bool" where
  "awardStep cb rnd w w' =
     (extends w w'
      \<and> filter isAward (newEvents w w') = awarded cb rnd (counters w) (newEvents w w')
      \<and> tally rnd (counters w) (newEvents w w') = counters w'
      \<and> length (enemies w') + length (destroyedIn (newEvents w w')) = length (enemies w)
      \<and> ((\<forall>e \<in> set (enemies w). 0 < health e) \<longrightarrow> (\<forall>e \<in> set (enemies w'). 0 < health e)))"

section \<open>A worked scene\<close>

text \<open>
  An overlap test for worked examples, two sprites overlapping when they are at the
  same place, and a scene: one bullet at the origin; an airborne and an exploded
  grenade at \<open>(50, 0)\<close>; a soldier and a tank at the origin, a tank at \<open>(100, 0)\<close> and a
  soldier at \<open>(300, 0)\<close>; the player and a grenade pack at \<open>(300, 0)\<close>.
\<close>

definition samePlace :: "Sprite \<Rightarrow> Sprite \<Rightarrow> bool" where
  "samePlace a b = (sx a = sx b \<and> sy a = sy b)"

definition spriteAt :: "real \<Rightarrow> real \<Rightarrow> Sprite" where
  "spriteAt x y = \<lparr>sx = x, sy = y, tint = None\<rparr>"

definition nearSoldier :: Enemy where "nearSoldier = Enemy_new 0 0 100 1 SOLDIER"
definition nearTank :: Enemy where "nearTank = Enemy_new 0 0 50 3 TANK"
definition sideTank :: Enemy where "sideTank = Enemy_new 100 0 50 3 TANK"
definition farSoldier :: Enemy where "farSoldier = Enemy_new 300 0 100 1 SOLDIER"

definition demoWorld :: World where
  "demoWorld =
     \<lparr>bullets = [\<lparr>bsprite = spriteAt 0 0\<rparr>],
      grenades = [Grenade_new 50 0, (Grenade_new 50 0)\<lparr>hasExploded := True\<rparr>],
      enemies = [nearSoldier, nearTank, sideTank, farSoldier],
      powerUps = [\<lparr>usprite = spriteAt 300 0, ptype = GRENADE_PACK, collected = False\<rparr>],
      player = Player_new 300 0,
      score = 0, kills = 0, drawn = 0, events = []\<rparr>"

text \<open>The same scene with the player shielded, and a boss on its last health point.\<close>

definition shieldedWorld :: World where
  "shieldedWorld = demoWorld\<lparr>player := activateInvincibility 8000 0 (Player_new 300 0)\<rparr>"

definition lastStandBoss :: Enemy where
  "lastStandBoss = (Boss_new 0 0)\<lparr>health := 1\<rparr>"

definition bossWorld :: World where
  "bossWorld =
     \<lparr>bullets = [\<lparr>bsprite = spriteAt 0 0\<rparr>], grenades = [], enemies = [lastStandBoss],
      powerUps = [], player = Player_new 300 0,
      score = 0, kills = 0, drawn = 0, events = []\<rparr>"

text \<open>Two bullets at the place of one soldier with a single health point.\<close>

definition twoBulletWorld :: World where
  "twoBulletWorld =
     \<lparr>bullets = [\<lparr>bsprite = spriteAt 0 0\<rparr>, \<lparr>bsprite = spriteAt 0 0\<rparr>], grenades = [],
      enemies = [nearSoldier], powerUps = [], player = Player_new 300 0,
      score = 0, kills = 0, drawn = 0, events = []\<rparr>"

section \<open>Damage and boss phases\<close>

lemma takeDamage_plain:
  "cls e = Plain \<Longrightarrow>
   takeDamage r e = ((health e - 1 \<le> 0, e\<lparr>health := health e - 1\<rparr>), False)"
  by (simp add: takeDamage_def Enemy_takeDamage_def Let_def)

lemma run_plain_below:
  "cls e = Plain \<Longrightarrow> int n < health e \<Longrightarrow>
   map fst (takeDamageRun n rnd k e) = replicate n False"
proof (induction n arbitrary: e k)
  case 0
  then show ?case by simp
next
  case (Suc n)
  let ?e1 = "e\<lparr>health := health e - 1\<rparr>"
  have "cls ?e1 = Plain" "int n < health ?e1"
    using Suc.prems by simp_all
  from Suc.IH [OF this] show ?case
    using Suc.prems by (simp add: takeDamage_plain)
qed

lemma run_plain_exact:
  "cls e = Plain \<Longrightarrow> health e = int (Suc n) \<Longrightarrow>
   map fst (takeDamageRun (Suc n) rnd k e) = replicate n False @ [True]"
proof (induction n arbitrary: e k)
  case 0
  then show ?case by (simp add: takeDamage_plain)
next
  case (Suc n)
  let ?e1 = "e\<lparr>health := health e - 1\<rparr>"
  have "cls ?e1 = Plain" "health ?e1 = int (Suc n)"
    using Suc.prems by simp_all
  from Suc.IH [OF this] show ?case
    using Suc.prems by (simp add: takeDamage_plain)
qed

text \<open>
  Claim C6. An enemy of a class that inherits \<open>takeDamage\<close> loses exactly one health
  point per call, and the call reports destruction exactly when the health left is
  zero or less. With initial health \<open>h > 0\<close>, \<open>h\<close> calls return false \<open>h - 1\<close> times and
  then true; \<open>h - 1\<close> calls return false every time.
\<close>

theorem default_takeDamage:
  assumes "cls e = Plain" and "health e = int h" and "0 < h"
  shows "takeDamage r e = ((health e - 1 \<le> 0, e\<lparr>health := health e - 1\<rparr>), False)
       \<and> map fst (takeDamageRun h rnd k e) = replicate (h - 1) False @ [True]
       \<and> map fst (takeDamageRun (h - 1) rnd k e) = replicate (h - 1) False"
proof -
  obtain n where h: "h = Suc n"
    using assms(3) by (cases h) auto
  have a: "takeDamage r e = ((health e - 1 \<le> 0, e\<lparr>health := health e - 1\<rparr>), False)"
    using assms(1) by (rule takeDamage_plain)
  have b: "map fst (takeDamageRun h rnd k e) = replicate (h - 1) False @ [True]"
    using run_plain_exact [of e n rnd k] assms h by simp
  have c: "map fst (takeDamageRun (h - 1) rnd k e) = replicate (h - 1) False"
    using run_plain_below [of e n rnd k] assms h by simp
  from a b c show ?thesis by simp
qed

theorem default_takeDamage_witness:
  "cls (Enemy_new 0 0 50 3 TANK) = Plain \<and> health (Enemy_new 0 0 50 3 TANK) = int 3
   \<and> map fst (takeDamageRun 3 (\<lambda>k. 0) 0 (Enemy_new 0 0 50 3 TANK)) = [False, False, True]
   \<and> map fst (takeDamageRun 2 (\<lambda>k. 0) 0 (Enemy_new 0 0 50 3 TANK)) = [False, False]"
proof -
  have h: "cls (Enemy_new 0 0 50 3 TANK) = Plain" "health (Enemy_new 0 0 50 3 TANK) = int 3"
    by (simp_all add: Enemy_new_def)
  have r: "replicate (3 - 1) False = [False, False]"
    by (simp add: numeral_eq_Suc)
  show ?thesis
    using h default_takeDamage [OF h, of 0 "\<lambda>k. 0" 0] r by simp
qed

text \<open>
  Claim C1. The claim is that the phase of a boss never falls. The code breaks it: a
  new boss (health 20, phase 1) is in phase 3 after the 14th call of \<open>takeDamage\<close>
  (health 6) and back in phase 2 after the 15th (health 5), since the second branch of
  \<open>Boss.takeDamage\<close> is taken whenever the first is not and the phase is not 2.
\<close>

theorem boss_phase_regresses:
  "map (phaseOf \<circ> snd) (takeDamageRun 15 rnd 0 (Boss_new x y))
     = [1, 1, 1, 1, 1, 1, 2, 2, 2, 2, 2, 2, 2, 3, 2]"
  by (simp add: eval_nat_numeral takeDamage_def Boss_takeDamage_def Boss_new_def
        BOSS_HEALTH_def phaseOf_def Let_def)

section \<open>Spawning\<close>

text \<open>
  Claim C7. When \<open>update\<close> spawns enemies, the spawn interval it leaves is
  \<open>max(400, 1200 - progress / 10)\<close>: 1200 at progress 0, 400 at progress 8000, and
  never below 400.
\<close>

theorem spawn_interval:
  assumes "shouldSpawn time s"
  shows "enemySpawnRate (SpawnSystem_update time mapProgress s)
           = max 400 (1200 - mapProgress / 10)
       \<and> enemySpawnRate (SpawnSystem_update time 0 s) = 1200
       \<and> enemySpawnRate (SpawnSystem_update time 8000 s) = 400
       \<and> 400 \<le> enemySpawnRate (SpawnSystem_update time mapProgress s)"
  using assms
  by (simp add: SpawnSystem_update_def Let_def ENEMY_SPAWN_RATE_MIN_def
        ENEMY_SPAWN_RATE_INITIAL_def)

theorem spawn_interval_witness:
  "shouldSpawn 1201 SpawnSystem_new
   \<and> enemySpawnRate (SpawnSystem_update 1201 5000 SpawnSystem_new) = 700
   \<and> enemySpawnRate (SpawnSystem_update 1201 0 SpawnSystem_new) = 1200
   \<and> enemySpawnRate (SpawnSystem_update 1201 8000 SpawnSystem_new) = 400"
proof -
  have h: "shouldSpawn 1201 SpawnSystem_new"
    by (simp add: shouldSpawn_def SpawnSystem_new_def ENEMY_SPAWN_RATE_INITIAL_def)
  show ?thesis
    using h spawn_interval [OF h, of 5000] by simp
qed

lemma band_early:
  assumes "0 \<le> roll" "roll < 1" "mapProgress < 100"
  shows "(createRandomEnemy roll mapProgress = Soldier \<longleftrightarrow> band 0 0.60 roll)
       \<and> (createRandomEnemy roll mapProgress = Jeep \<longleftrightarrow> band 0.60 0.25 roll)
       \<and> (createRandomEnemy roll mapProgress = Tank \<longleftrightarrow> band 0.85 0.15 roll)
       \<and> createRandomEnemy roll mapProgress \<in> {Soldier, Jeep, Tank}"
  using assms by (simp add: createRandomEnemy_def band_def)

lemma band_mid:
  assumes "0 \<le> roll" "roll < 1" "100 \<le> mapProgress" "mapProgress < 200"
  shows "(createRandomEnemy roll mapProgress = Soldier \<longleftrightarrow> band 0 0.40 roll)
       \<and> (createRandomEnemy roll mapProgress = Jeep \<longleftrightarrow> band 0.40 0.20 roll)
       \<and> (createRandomEnemy roll mapProgress = Tank \<longleftrightarrow> band 0.60 0.15 roll)
       \<and> (createRandomEnemy roll mapProgress = KnifeSoldier \<longleftrightarrow> band 0.75 0.15 roll)
       \<and> (createRandomEnemy roll mapProgress = CoveredSoldier \<longleftrightarrow> band 0.90 0.10 roll)
       \<and> createRandomEnemy roll mapProgress
           \<in> {Soldier, Jeep, Tank, KnifeSoldier, CoveredSoldier}"
  using assms by (simp add: createRandomEnemy_def band_def)

lemma band_late:
  assumes "0 \<le> roll" "roll < 1" "200 \<le> mapProgress" "mapProgress < 300"
  shows "(createRandomEnemy roll mapProgress = Soldier \<longleftrightarrow> band 0 0.30 roll)
       \<and> (createRandomEnemy roll mapProgress = Jeep \<longleftrightarrow> band 0.30 0.15 roll)
       \<and> (createRandomEnemy roll mapProgress = Tank \<longleftrightarrow> band 0.45 0.15 roll)
       \<and> (createRandomEnemy roll mapProgress = KnifeSoldier \<longleftrightarrow> band 0.60 0.15 roll)
       \<and> (createRandomEnemy roll mapProgress = CoveredSoldier \<longleftrightarrow> band 0.75 0.10 roll)
       \<and> (createRandomEnemy roll mapProgress = RocketLauncher \<longleftrightarrow> band 0.85 0.10 roll)
       \<and> (createRandomEnemy roll mapProgress = Bunker \<longleftrightarrow> band 0.95 0.05 roll)
       \<and> createRandomEnemy roll mapProgress
           \<in> {Soldier, Jeep, Tank, KnifeSoldier, CoveredSoldier, RocketLauncher, Bunker}"
  using assms by (simp add: createRandomEnemy_def band_def)

lemma band_end:
  assumes "0 \<le> roll" "roll < 1" "300 \<le> mapProgress"
  shows "(createRandomEnemy roll mapProgress = Soldier \<longleftrightarrow> band 0 0.25 roll)
       \<and> (createRandomEnemy roll mapProgress = Jeep \<longleftrightarrow> band 0.25 0.10 roll)
       \<and> (createRandomEnemy roll mapProgress = Tank \<longleftrightarrow> band 0.35 0.10 roll)
       \<and> (createRandomEnemy roll mapProgress = KnifeSoldier \<longleftrightarrow> band 0.45 0.15 roll)
       \<and> (createRandomEnemy roll mapProgress = CoveredSoldier \<longleftrightarrow> band 0.60 0.10 roll)
       \<and> (createRandomEnemy roll mapProgress = RocketLauncher \<longleftrightarrow> band 0.70 0.15 roll)
       \<and> (createRandomEnemy roll mapProgress = Bunker \<longleftrightarrow> band 0.85 0.10 roll)
       \<and> (createRandomEnemy roll mapProgress = Boss \<longleftrightarrow> band 0.95 0.05 roll)"
  using assms by (simp add: createRandomEnemy_def band_def)

lemma tier_gate:
  "(createRandomEnemy roll mapProgress \<in> {KnifeSoldier, CoveredSoldier} \<longrightarrow> 100 \<le> mapProgress)
   \<and> (createRandomEnemy roll mapProgress \<in> {RocketLauncher, Bunker} \<longrightarrow> 200 \<le> mapProgress)
   \<and> (createRandomEnemy roll mapProgress = Boss \<longrightarrow> 300 \<le> mapProgress)"
  by (simp add: createRandomEnemy_def)

text \<open>
  Claim C8. For one draw \<open>roll\<close> in \<open>[0, 1)\<close>, \<open>createRandomEnemy\<close> picks the class
  whose band holds the draw; \<open>band start width\<close> has probability \<open>width\<close> under a
  uniform draw, which is the percentage the claim gives. Below progress 100 the
  bands are Soldier 0.60, Jeep 0.25, Tank 0.15; from 100 to 200 Soldier 0.40, Jeep
  0.20, Tank 0.15, KnifeSoldier 0.15, CoveredSoldier 0.10; from 200 to 300 Soldier
  0.30, Jeep 0.15, Tank 0.15, KnifeSoldier 0.15, CoveredSoldier 0.10, RocketLauncher
  0.10, Bunker 0.05; from 300 on Soldier 0.25, Jeep 0.10, Tank 0.10, KnifeSoldier 0.15,
  CoveredSoldier 0.10, RocketLauncher 0.15, Bunker 0.10, Boss 0.05. A class of a higher
  tier is never produced below the progress at which its tier starts.
\<close>

theorem spawn_table:
  assumes "0 \<le> roll" and "roll < 1"
  shows "(mapProgress < 100 \<longrightarrow>
            (createRandomEnemy roll mapProgress = Soldier \<longleftrightarrow> band 0 0.60 roll)
          \<and> (createRandomEnemy roll mapProgress = Jeep \<longleftrightarrow> band 0.60 0.25 roll)
          \<and> (createRandomEnemy roll mapProgress = Tank \<longleftrightarrow> band 0.85 0.15 roll)
          \<and> createRandomEnemy roll mapProgress \<in> {Soldier, Jeep, Tank})
       \<and> (100 \<le> mapProgress \<and> mapProgress < 200 \<longrightarrow>
            (createRandomEnemy roll mapProgress = Soldier \<longleftrightarrow> band 0 0.40 roll)
          \<and> (createRandomEnemy roll mapProgress = Jeep \<longleftrightarrow> band 0.40 0.20 roll)
          \<and> (createRandomEnemy roll mapProgress = Tank \<longleftrightarrow> band 0.60 0.15 roll)
          \<and> (createRandomEnemy roll mapProgress = KnifeSoldier \<longleftrightarrow> band 0.75 0.15 roll)
          \<and> (createRandomEnemy roll mapProgress = CoveredSoldier \<longleftrightarrow> band 0.90 0.10 roll)
          \<and> createRandomEnemy roll mapProgress
              \<in> {Soldier, Jeep, Tank, KnifeSoldier, CoveredSoldier})
       \<and> (200 \<le> mapProgress \<and> mapProgress < 300 \<longrightarrow>
            (createRandomEnemy roll mapProgress = Soldier \<longleftrightarrow> band 0 0.30 roll)
          \<and> (createRandomEnemy roll mapProgress = Jeep \<longleftrightarrow> band 0.30 0.15 roll)
          \<and> (createRandomEnemy roll mapProgress = Tank \<longleftrightarrow> band 0.45 0.15 roll)
          \<and> (createRandomEnemy roll mapProgress = KnifeSoldier \<longleftrightarrow> band 0.60 0.15 roll)
          \<and> (createRandomEnemy roll mapProgress = CoveredSoldier \<longleftrightarrow> band 0.75 0.10 roll)
          \<and> (createRandomEnemy roll mapProgress = RocketLauncher \<longleftrightarrow> band 0.85 0.10 roll)
          \<and> (createRandomEnemy roll mapProgress = Bunker \<longleftrightarrow> band 0.95 0.05 roll)
          \<and> createRandomEnemy roll mapProgress
              \<in> {Soldier, Jeep, Tank, KnifeSoldier, CoveredSoldier, RocketLauncher, Bunker})
       \<and> (300 \<le> mapProgress \<longrightarrow>
            (createRandomEnemy roll mapProgress = Soldier \<longleftrightarrow> band 0 0.25 roll)
          \<and> (createRandomEnemy roll mapProgress = Jeep \<longleftrightarrow> band 0.25 0.10 roll)
          \<and> (createRandomEnemy roll mapProgress = Tank \<longleftrightarrow> band 0.35 0.10 roll)
          \<and> (createRandomEnemy roll mapProgress = KnifeSoldier \<longleftrightarrow> band 0.45 0.15 roll)
          \<and> (createRandomEnemy roll mapProgress = CoveredSoldier \<longleftrightarrow> band 0.60 0.10 roll)
          \<and> (createRandomEnemy roll mapProgress = RocketLauncher \<longleftrightarrow> band 0.70 0.15 roll)
          \<and> (createRandomEnemy roll mapProgress = Bunker \<longleftrightarrow> band 0.85 0.10 roll)
          \<and> (createRandomEnemy roll mapProgress = Boss \<longleftrightarrow> band 0.95 0.05 roll))
       \<and> (createRandomEnemy roll mapProgress \<in> {KnifeSoldier, CoveredSoldier}
            \<longrightarrow> 100 \<le> mapProgress)
       \<and> (createRandomEnemy roll mapProgress \<in> {RocketLauncher, Bunker}
            \<longrightarrow> 200 \<le> mapProgress)
       \<and> (createRandomEnemy roll mapProgress = Boss \<longrightarrow> 300 \<le> mapProgress)"
  (is "(?c1 \<longrightarrow> ?A) \<and> (?c2 \<longrightarrow> ?B) \<and> (?c3 \<longrightarrow> ?C) \<and> (?c4 \<longrightarrow> ?D) \<and> ?G")
proof -
  have 1: "?c1 \<longrightarrow> ?A"
  proof (rule impI)
    assume ?c1
    then show ?A by (rule band_early [OF assms])
  qed
  have 2: "?c2 \<longrightarrow> ?B"
  proof (rule impI)
    assume h: ?c2
    show ?B by (rule band_mid [OF assms conjunct1 [OF h] conjunct2 [OF h]])
  qed
  have 3: "?c3 \<longrightarrow> ?C"
  proof (rule impI)
    assume h: ?c3
    show ?C by (rule band_late [OF assms conjunct1 [OF h] conjunct2 [OF h]])
  qed
  have 4: "?c4 \<longrightarrow> ?D"
  proof (rule impI)
    assume ?c4
    then show ?D by (rule band_end [OF assms])
  qed
  have 5: ?G
    by (rule tier_gate)
  show ?thesis
    apply (rule conjI, rule 1)
    apply (rule conjI, rule 2)
    apply (rule conjI, rule 3)
    apply (rule conjI, rule 4)
    apply (rule 5)
    done
qed

theorem spawn_table_witness:
  "(0::real) \<le> 0.97 \<and> (0.97::real) < 1
   \<and> createRandomEnemy 0.97 350 = Boss \<and> band 0.95 0.05 0.97
   \<and> createRandomEnemy 0.97 250 = Bunker
   \<and> createRandomEnemy 0.97 150 = CoveredSoldier
   \<and> createRandomEnemy 0.97 50 = Tank"
proof -
  have h: "(0::real) \<le> 0.97" "(0.97::real) < 1"
    by simp_all
  have b: "band 0.95 0.05 0.97" "band 0.90 0.10 0.97" "band 0.85 0.15 0.97"
    by (simp_all add: band_def)
  have c1: "createRandomEnemy 0.97 350 = Boss"
    using b spawn_table [OF h, of 350] by simp
  have c2: "createRandomEnemy 0.97 250 = Bunker"
    using b spawn_table [OF h, of 250] by simp
  have c3: "createRandomEnemy 0.97 150 = CoveredSoldier"
    using b spawn_table [OF h, of 150] by simp
  have c4: "createRandomEnemy 0.97 50 = Tank"
    using b spawn_table [OF h, of 50] by simp
  show ?thesis
    using h b c1 c2 c3 c4 by simp
qed

section \<open>Levels\<close>




section \<open>The grenade stock\<close>

lemma grenadeOp_nonneg:
  "0 \<le> grenadeCount p \<Longrightarrow> addsNonNegative c \<Longrightarrow> 0 \<le> grenadeCount (grenadeOp c p)"
  by (cases c) (simp_all add: throwGrenade_def addGrenades_def)

lemma grenadeOps_nonneg:
  "0 \<le> grenadeCount p \<Longrightarrow> list_all addsNonNegative cs \<Longrightarrow>
   0 \<le> grenadeCount (grenadeOps cs p)"
  by (induction cs arbitrary: p) (simp_all add: grenadeOp_nonneg)

text \<open>
  Claim C10. A new player holds 10 grenades, and after any run of \<open>throwGrenade\<close> and
  \<open>addGrenades\<close> calls that adds no negative count the stock is not negative.
  \<open>throwGrenade\<close> returns a grenade exactly when the stock is positive and the
  cooldown of 300 ms has passed; then the stock falls by one, and otherwise the
  player is left as it was.
\<close>

theorem grenade_count_never_negative:
  assumes "list_all addsNonNegative cs"
  shows "grenadeCount (Player_new x y) = 10
       \<and> 0 \<le> grenadeCount (grenadeOps cs (Player_new x y))
       \<and> ((fst (throwGrenade time p) \<noteq> None)
            = (0 < grenadeCount p \<and> lastGrenadeThrow p + 300 < time))
       \<and> grenadeCount (snd (throwGrenade time p))
            = (if fst (throwGrenade time p) \<noteq> None then grenadeCount p - 1
               else grenadeCount p)
       \<and> (fst (throwGrenade time p) = None \<longrightarrow> snd (throwGrenade time p) = p)"
proof -
  have a: "grenadeCount (Player_new x y) = 10"
    by (simp add: Player_new_def GRENADE_INITIAL_COUNT_def)
  have b: "0 \<le> grenadeCount (grenadeOps cs (Player_new x y))"
    using assms a by (simp add: grenadeOps_nonneg)
  show ?thesis
    using a b by (simp add: throwGrenade_def grenadeThrowRate_def)
qed

theorem grenade_count_never_negative_witness:
  "list_all addsNonNegative [Throw 301, Throw 400, Add 5, Throw 700]
   \<and> grenadeCount (grenadeOps [Throw 301, Throw 400, Add 5, Throw 700] (Player_new 0 0)) = 13
   \<and> fst (throwGrenade 301 (Player_new 0 0)) \<noteq> None
   \<and> grenadeCount (snd (throwGrenade 301 (Player_new 0 0))) = 9
   \<and> throwGrenade 300 (Player_new 0 0) = (None, Player_new 0 0)"
proof -
  have h: "list_all addsNonNegative [Throw 301, Throw 400, Add 5, Throw 700]"
    by simp
  show ?thesis
    using h grenade_count_never_negative [OF h, of 0 0 301 "Player_new 0 0"]
    by (simp add: throwGrenade_def addGrenades_def grenadeThrowRate_def Player_new_def
          GRENADE_INITIAL_COUNT_def)
qed

section \<open>The record of a collision check\<close>

lemma extends_refl: "extends w w"
  by (simp add: extends_def)

lemma extends_events: "extends w w' \<Longrightarrow> events w' = events w @ newEvents w w'"
  unfolding extends_def newEvents_def
  by (metis append_take_drop_id)

lemma extends_trans:
  assumes "extends w w1" "extends w1 w2"
  shows "extends w w2 \<and> newEvents w w2 = newEvents w w1 @ newEvents w1 w2"
proof -
  obtain L1 where a: "events w1 = events w @ L1"
    using extends_events [OF assms(1)] by blast
  obtain L2 where b: "events w2 = events w1 @ L2"
    using extends_events [OF assms(2)] by blast
  show ?thesis by (simp add: extends_def newEvents_def a b)
qed

lemma emit_extends: "extends w (emit ev w)" "newEvents w (emit ev w) = [ev]"
  by (simp_all add: extends_def newEvents_def emit_def)

lemma emit_sel [simp]:
  "bullets (emit ev w) = bullets w"
  "grenades (emit ev w) = grenades w"
  "enemies (emit ev w) = enemies w"
  "powerUps (emit ev w) = powerUps w"
  "player (emit ev w) = player w"
  "score (emit ev w) = score w"
  "kills (emit ev w) = kills w"
  "drawn (emit ev w) = drawn w"
  by (simp_all add: emit_def)

lemma newEvents_refl: "newEvents w w = []"
  by (simp add: newEvents_def)

lemma hit_extends: "extends w (hitEnemy cb rnd src j w)"
  by (simp add: hitEnemy_def extends_def emit_def Let_def split: prod.splits)

lemma hit_frame:
  "bullets (hitEnemy cb rnd src j w) = bullets w"
  "grenades (hitEnemy cb rnd src j w) = grenades w"
  "powerUps (hitEnemy cb rnd src j w) = powerUps w"
  "player (hitEnemy cb rnd src j w) = player w"
  by (simp_all add: hitEnemy_def emit_def Let_def split: prod.splits)

lemma hit_damaged:
  "damaged s (newEvents w (hitEnemy cb rnd src j w)) = (if s = src then [enemies w ! j] else [])"
  by (simp add: hitEnemy_def newEvents_def emit_def Let_def split: prod.splits)

lemma hit_about:
  "filter (aboutBullet i) (newEvents w (hitEnemy cb rnd src j w))
     = (if src = ByBullet i then [Damage src (enemies w ! j)] else [])"
  by (simp add: hitEnemy_def newEvents_def emit_def Let_def split: prod.splits)

lemma hit_enemies:
  "j < length (enemies w) \<Longrightarrow>
   take j (enemies (hitEnemy cb rnd src j w)) = take j (enemies w)
   \<and> j \<le> length (enemies (hitEnemy cb rnd src j w))"
  by (auto simp add: hitEnemy_def emit_def Let_def splice1_def split: prod.splits)

lemma hit_quiet:
  "GameOver \<notin> set (newEvents w (hitEnemy cb rnd src j w))"
  "filter isPickup (newEvents w (hitEnemy cb rnd src j w)) = []"
  by (simp_all add: hitEnemy_def newEvents_def emit_def Let_def split: prod.splits)

lemma hit_account:
  "score (hitEnemy cb rnd src j w)
     = score w + sum_list (map (getPointsForEnemy \<circ> etype) (destroyedIn (newEvents w (hitEnemy cb rnd src j w))))"
  "kills (hitEnemy cb rnd src j w)
     = kills w + int (length (destroyedIn (newEvents w (hitEnemy cb rnd src j w))))"
  "count_list (newEvents w (hitEnemy cb rnd src j w)) BossDefeated
     = (if cb then length (filter (\<lambda>e. etype e = BOSS) (destroyedIn (newEvents w (hitEnemy cb rnd src j w)))) else 0)"
  by (simp_all add: hitEnemy_def newEvents_def emit_def Let_def split: prod.splits)


lemma new_comp:
  "extends w w1 \<Longrightarrow> extends w1 w2 \<Longrightarrow> newEvents w w2 = newEvents w w1 @ newEvents w1 w2"
  using extends_trans by blast

lemma ext_comp: "extends w w1 \<Longrightarrow> extends w1 w2 \<Longrightarrow> extends w w2"
  using extends_trans by blast

lemma tested_step:
  "extends w (emit (BulletTested i e) w)"
  "newEvents w (emit (BulletTested i e) w) = [BulletTested i e]"
  "enemies (emit (BulletTested i e) w) = enemies w"
  "bullets (emit (BulletTested i e) w) = bullets w"
  by (simp_all add: extends_def newEvents_def emit_def)

lemma removed_step:
  "extends w ((emit (BulletDestroyed i) (emit (BulletTested i e) w))\<lparr>bullets := bs\<rparr>)"
  "newEvents w ((emit (BulletDestroyed i) (emit (BulletTested i e) w))\<lparr>bullets := bs\<rparr>)
     = [BulletTested i e, BulletDestroyed i]"
  "enemies ((emit (BulletDestroyed i) (emit (BulletTested i e) w))\<lparr>bullets := bs\<rparr>) = enemies w"
  by (simp_all add: extends_def newEvents_def emit_def)

lemma scan_extends: "extends w (scanEnemies ov cb rnd i b n w)"
proof (induction n arbitrary: w)
  case 0
  show ?case by (simp add: extends_refl)
next
  case (Suc j)
  show ?case
    by (auto simp add: Let_def intro: ext_comp [OF removed_step(1) hit_extends]
          ext_comp [OF tested_step(1) Suc.IH])
qed

lemma scan_story:
  "n \<le> length (enemies w) \<Longrightarrow>
   filter (aboutBullet k) (newEvents w (scanEnemies ov cb rnd i b n w))
     = (if k = i then bulletStory ov i b (rev (take n (enemies w))) else [])"
proof (induction n arbitrary: w)
  case 0
  show ?case by (simp add: newEvents_refl)
next
  case (Suc j)
  let ?e = "enemies w ! j"
  let ?w1 = "emit (BulletTested i ?e) w"
  have j: "j < length (enemies w)" using Suc.prems by simp
  have tk: "rev (take (Suc j) (enemies w)) = ?e # rev (take j (enemies w))"
    using j by (simp add: take_Suc_conv_app_nth)
  show ?case
  proof (cases "ov b (sprite ?e)")
    case True
    let ?w2 = "(emit (BulletDestroyed i) ?w1)\<lparr>bullets := splice1 i (bullets ?w1)\<rparr>"
    have sc: "scanEnemies ov cb rnd i b (Suc j) w = hitEnemy cb rnd (ByBullet i) j ?w2"
      using True by (simp add: Let_def)
    have ne: "newEvents w (hitEnemy cb rnd (ByBullet i) j ?w2)
                = [BulletTested i ?e, BulletDestroyed i]
                  @ newEvents ?w2 (hitEnemy cb rnd (ByBullet i) j ?w2)"
      using new_comp [OF removed_step(1) hit_extends] removed_step(2) by simp
    have en: "enemies ?w2 ! j = ?e" by (simp add: removed_step(3))
    show ?thesis
      unfolding sc ne tk using True by (simp add: hit_about)
  next
    case False
    have sc: "scanEnemies ov cb rnd i b (Suc j) w = scanEnemies ov cb rnd i b j ?w1"
      using False by (simp add: Let_def)
    have ne: "newEvents w (scanEnemies ov cb rnd i b j ?w1)
                = [BulletTested i ?e] @ newEvents ?w1 (scanEnemies ov cb rnd i b j ?w1)"
      using new_comp [OF tested_step(1) scan_extends] tested_step(2) by simp
    have ih: "filter (aboutBullet k) (newEvents ?w1 (scanEnemies ov cb rnd i b j ?w1))
                = (if k = i then bulletStory ov i b (rev (take j (enemies w))) else [])"
      using Suc.IH [of ?w1] j by (simp add: tested_step(3))
    show ?thesis
      unfolding sc ne tk using False ih by auto
  qed
qed


lemma destroyedIn_append: "destroyedIn (xs @ ys) = destroyedIn xs @ destroyedIn ys"
  by (induction xs rule: destroyedIn.induct) simp_all

lemma damaged_append: "damaged src (xs @ ys) = damaged src xs @ damaged src ys"
  by (induction src xs rule: damaged.induct) simp_all

lemma points_append: "points (xs @ ys) = points xs + points ys"
  by (simp add: points_def destroyedIn_append)

lemma bossKills_append: "bossKills (xs @ ys) = bossKills xs + bossKills ys"
  by (simp add: bossKills_def destroyedIn_append)

lemma scored_refl: "scoredStep cb w w"
  by (simp add: scoredStep_def extends_refl newEvents_refl points_def bossKills_def)

lemma scored_trans:
  assumes "scoredStep cb w w1" "scoredStep cb w1 w2"
  shows "scoredStep cb w w2"
proof -
  have e1: "extends w w1" and e2: "extends w1 w2"
    using assms by (simp_all add: scoredStep_def)
  have n: "newEvents w w2 = newEvents w w1 @ newEvents w1 w2"
    by (rule new_comp [OF e1 e2])
  have e: "extends w w2"
    by (rule ext_comp [OF e1 e2])
  show ?thesis
    using assms e
    by (simp add: scoredStep_def n points_append bossKills_append destroyedIn_append)
qed

lemma scored_hit: "scoredStep cb w (hitEnemy cb rnd src j w)"
  unfolding scoredStep_def points_def bossKills_def
  by (intro conjI hit_extends hit_frame hit_quiet hit_account)

lemma scored_tested: "scoredStep cb w (emit (BulletTested i e) w)"
  by (simp add: scoredStep_def tested_step points_def bossKills_def)

lemma scored_removed:
  "scoredStep cb w ((emit (BulletDestroyed i) (emit (BulletTested i e) w))\<lparr>bullets := bs\<rparr>)"
  by (simp add: scoredStep_def removed_step points_def bossKills_def)

lemma scored_scan: "scoredStep cb w (scanEnemies ov cb rnd i b n w)"
proof (induction n arbitrary: w)
  case 0
  show ?case by (simp add: scored_refl)
next
  case (Suc j)
  show ?case
    by (auto simp add: Let_def intro: scored_trans [OF scored_removed scored_hit]
          scored_trans [OF scored_tested Suc.IH])
qed

lemma take_splice1: "take i (splice1 i xs) = take i xs"
  by (simp add: splice1_def min_def)

lemma scan_bullets: "take i (bullets (scanEnemies ov cb rnd i b n w)) = take i (bullets w)"
proof (induction n arbitrary: w)
  case 0
  show ?case by simp
next
  case (Suc j)
  show ?case
    using Suc.IH [of "emit (BulletTested i (enemies w ! j)) w"]
    by (simp add: Let_def hit_frame take_splice1)
qed

lemma scan_no_grenade:
  "damaged (ByGrenade k) (newEvents w (scanEnemies ov cb rnd i b n w)) = []"
proof (induction n arbitrary: w)
  case 0
  show ?case by (simp add: newEvents_refl)
next
  case (Suc j)
  let ?e = "enemies w ! j"
  let ?w1 = "emit (BulletTested i ?e) w"
  let ?w2 = "(emit (BulletDestroyed i) ?w1)\<lparr>bullets := splice1 i (bullets ?w1)\<rparr>"
  have a: "damaged (ByGrenade k) (newEvents w (hitEnemy cb rnd (ByBullet i) j ?w2)) = []"
    by (simp add: new_comp [OF removed_step(1) hit_extends] removed_step(2) damaged_append
          hit_damaged)
  have b: "damaged (ByGrenade k) (newEvents w (scanEnemies ov cb rnd i b j ?w1)) = []"
    using Suc.IH [of ?w1]
    by (simp add: new_comp [OF tested_step(1) scan_extends] tested_step(2) damaged_append)
  show ?case
    using a b by (simp add: Let_def)
qed

lemma visitB_scored: "scoredStep cb w (visitBullet ov cb rnd i w)"
  by (simp add: visitBullet_def scored_scan)

lemma visitB_story:
  "filter (aboutBullet k) (newEvents w (visitBullet ov cb rnd i w))
     = (if k = i then bulletStory ov i (bsprite (bullets w ! i)) (rev (enemies w)) else [])"
  using scan_story [of "length (enemies w)" w k ov cb rnd i "bsprite (bullets w ! i)"]
  by (simp add: visitBullet_def)

lemma visitB_bullets: "take i (bullets (visitBullet ov cb rnd i w)) = take i (bullets w)"
  by (simp add: visitBullet_def scan_bullets)

lemma visitB_no_grenade:
  "damaged (ByGrenade k) (newEvents w (visitBullet ov cb rnd i w)) = []"
  by (simp add: visitBullet_def scan_no_grenade)

lemma scored_extends: "scoredStep cb w w' \<Longrightarrow> extends w w'"
  by (simp add: scoredStep_def)

lemma foldB_scored: "scoredStep cb w (fold (visitBullet ov cb rnd) ks w)"
proof (induction ks arbitrary: w)
  case Nil
  show ?case by (simp add: scored_refl)
next
  case (Cons k ks)
  show ?case
    using scored_trans [OF visitB_scored Cons.IH] by simp
qed

lemma foldB_story:
  "i \<notin> set ks \<Longrightarrow>
   filter (aboutBullet i) (newEvents w (fold (visitBullet ov cb rnd) ks w)) = []"
proof (induction ks arbitrary: w)
  case Nil
  show ?case by (simp add: newEvents_refl)
next
  case (Cons k ks)
  let ?w1 = "visitBullet ov cb rnd k w"
  have n: "newEvents w (fold (visitBullet ov cb rnd) ks ?w1)
             = newEvents w ?w1 @ newEvents ?w1 (fold (visitBullet ov cb rnd) ks ?w1)"
    by (rule new_comp [OF scored_extends [OF visitB_scored] scored_extends [OF foldB_scored]])
  show ?case
    using Cons.prems Cons.IH [of ?w1] by (simp add: n visitB_story)
qed

lemma foldB_no_grenade:
  "damaged (ByGrenade g) (newEvents w (fold (visitBullet ov cb rnd) ks w)) = []"
proof (induction ks arbitrary: w)
  case Nil
  show ?case by (simp add: newEvents_refl)
next
  case (Cons k ks)
  let ?w1 = "visitBullet ov cb rnd k w"
  have n: "newEvents w (fold (visitBullet ov cb rnd) ks ?w1)
             = newEvents w ?w1 @ newEvents ?w1 (fold (visitBullet ov cb rnd) ks ?w1)"
    by (rule new_comp [OF scored_extends [OF visitB_scored] scored_extends [OF foldB_scored]])
  show ?case
    using Cons.IH [of ?w1] by (simp add: n damaged_append visitB_no_grenade)
qed

lemma foldB_bullets:
  "\<forall>k \<in> set ks. i < k \<Longrightarrow>
   take (Suc i) (bullets (fold (visitBullet ov cb rnd) ks w)) = take (Suc i) (bullets w)"
proof (induction ks arbitrary: w)
  case Nil
  show ?case by simp
next
  case (Cons k ks)
  have k: "Suc i \<le> k" using Cons.prems by simp
  have "take (Suc i) (take k (bullets (visitBullet ov cb rnd k w)))
          = take (Suc i) (take k (bullets w))"
    by (simp only: visitB_bullets)
  then have a: "take (Suc i) (bullets (visitBullet ov cb rnd k w)) = take (Suc i) (bullets w)"
    using k by (simp add: min_def)
  show ?case
    using Cons.prems Cons.IH [of "visitBullet ov cb rnd k w"] a by simp
qed

lemma bulletLoop_fold:
  "bulletLoop ov cb rnd n w = fold (visitBullet ov cb rnd) (rev [0 ..< n]) w"
  by (induction n arbitrary: w) simp_all

lemma scored_blast: "scoredStep cb w (blastEnemies cb rnd i g n w)"
proof (induction n arbitrary: w)
  case 0
  show ?case by (simp add: scored_refl)
next
  case (Suc j)
  show ?case
    using scored_trans [OF scored_hit Suc.IH] Suc.IH by simp
qed

lemma blast_bullets: "bullets (blastEnemies cb rnd i g n w) = bullets w"
  by (induction n arbitrary: w) (simp_all add: hit_frame)

lemma blast_about:
  "filter (aboutBullet k) (newEvents w (blastEnemies cb rnd i g n w)) = []"
proof (induction n arbitrary: w)
  case 0
  show ?case by (simp add: newEvents_refl)
next
  case (Suc j)
  let ?w1 = "hitEnemy cb rnd (ByGrenade i) j w"
  have a: "filter (aboutBullet k) (newEvents w (blastEnemies cb rnd i g j ?w1)) = []"
    using Suc.IH [of ?w1]
    by (simp add: new_comp [OF hit_extends scored_extends [OF scored_blast]] hit_about)
  show ?case
    using a Suc.IH [of w] by simp
qed

lemma blast_damaged:
  "n \<le> length (enemies w) \<Longrightarrow>
   damaged s (newEvents w (blastEnemies cb rnd i g n w))
     = (if s = ByGrenade i then rev (filter (inBlast g) (take n (enemies w))) else [])"
proof (induction n arbitrary: w)
  case 0
  show ?case by (simp add: newEvents_refl)
next
  case (Suc j)
  have j: "j < length (enemies w)" using Suc.prems by simp
  have tk: "take (Suc j) (enemies w) = take j (enemies w) @ [enemies w ! j]"
    using j by (simp add: take_Suc_conv_app_nth)
  show ?case
  proof (cases "inBlast g (enemies w ! j)")
    case True
    let ?w1 = "hitEnemy cb rnd (ByGrenade i) j w"
    have ih: "damaged s (newEvents ?w1 (blastEnemies cb rnd i g j ?w1))
                = (if s = ByGrenade i then rev (filter (inBlast g) (take j (enemies w))) else [])"
      using Suc.IH [of ?w1] hit_enemies [OF j, of cb rnd "ByGrenade i"] by simp
    have n: "newEvents w (blastEnemies cb rnd i g j ?w1)
               = newEvents w ?w1 @ newEvents ?w1 (blastEnemies cb rnd i g j ?w1)"
      by (rule new_comp [OF hit_extends scored_extends [OF scored_blast]])
    show ?thesis
      using True ih by (simp add: n tk damaged_append hit_damaged)
  next
    case False
    show ?thesis
      using False Suc.IH [of w] j by (simp add: tk)
  qed
qed

lemma visitG_scored: "scoredStep cb w (visitGrenade cb rnd i w)"
  by (simp add: visitGrenade_def Let_def scored_blast scored_refl)

lemma visitG_bullets: "bullets (visitGrenade cb rnd i w) = bullets w"
  by (simp add: visitGrenade_def Let_def blast_bullets)

lemma visitG_about: "filter (aboutBullet k) (newEvents w (visitGrenade cb rnd i w)) = []"
  by (simp add: visitGrenade_def Let_def blast_about newEvents_refl)

lemma visitG_damaged:
  "damaged s (newEvents w (visitGrenade cb rnd i w))
     = (if s = ByGrenade i \<and> hasExploded (grenades w ! i)
        then rev (filter (inBlast (grenades w ! i)) (enemies w)) else [])"
  using blast_damaged [of "length (enemies w)" w s cb rnd i "grenades w ! i"]
  by (auto simp add: visitGrenade_def Let_def newEvents_refl)

lemma foldG_scored: "scoredStep cb w (fold (visitGrenade cb rnd) ks w)"
proof (induction ks arbitrary: w)
  case Nil
  show ?case by (simp add: scored_refl)
next
  case (Cons k ks)
  show ?case
    using scored_trans [OF visitG_scored Cons.IH] by simp
qed

lemma foldG_bullets: "bullets (fold (visitGrenade cb rnd) ks w) = bullets w"
  by (induction ks arbitrary: w) (simp_all add: visitG_bullets)

lemma scored_grenades: "scoredStep cb w w' \<Longrightarrow> grenades w' = grenades w"
  by (simp add: scoredStep_def)

lemma foldG_about:
  "filter (aboutBullet i) (newEvents w (fold (visitGrenade cb rnd) ks w)) = []"
proof (induction ks arbitrary: w)
  case Nil
  show ?case by (simp add: newEvents_refl)
next
  case (Cons k ks)
  let ?w1 = "visitGrenade cb rnd k w"
  have n: "newEvents w (fold (visitGrenade cb rnd) ks ?w1)
             = newEvents w ?w1 @ newEvents ?w1 (fold (visitGrenade cb rnd) ks ?w1)"
    by (rule new_comp [OF scored_extends [OF visitG_scored] scored_extends [OF foldG_scored]])
  show ?case
    using Cons.IH [of ?w1] by (simp add: n visitG_about)
qed

lemma foldG_damaged:
  "i \<notin> set ks \<Longrightarrow>
   damaged (ByGrenade i) (newEvents w (fold (visitGrenade cb rnd) ks w)) = []"
proof (induction ks arbitrary: w)
  case Nil
  show ?case by (simp add: newEvents_refl)
next
  case (Cons k ks)
  let ?w1 = "visitGrenade cb rnd k w"
  have n: "newEvents w (fold (visitGrenade cb rnd) ks ?w1)
             = newEvents w ?w1 @ newEvents ?w1 (fold (visitGrenade cb rnd) ks ?w1)"
    by (rule new_comp [OF scored_extends [OF visitG_scored] scored_extends [OF foldG_scored]])
  show ?case
    using Cons.prems Cons.IH [of ?w1] by (simp add: n damaged_append visitG_damaged)
qed

lemma grenadeLoop_fold:
  "grenadeLoop cb rnd n w = fold (visitGrenade cb rnd) (rev [0 ..< n]) w"
  by (induction n arbitrary: w) simp_all

lemma collect_extends: "extends w (collectLoop ov now n w)"
  by (induction n arbitrary: w) (simp_all add: extends_refl Let_def extends_def emit_def)

lemma collect_events: "list_all isPickup (newEvents w (collectLoop ov now n w))"
  by (induction n arbitrary: w) (simp_all add: newEvents_refl Let_def newEvents_def emit_def)

lemma collect_frame:
  "score (collectLoop ov now n w) = score w"
  "kills (collectLoop ov now n w) = kills w"
  "bullets (collectLoop ov now n w) = bullets w"
  by (induction n arbitrary: w) (simp_all add: Let_def)

lemma pickup_only:
  assumes "list_all isPickup evs"
  shows "filter (aboutBullet i) evs = []" "damaged s evs = []" "destroyedIn evs = []"
    "GameOver \<notin> set evs" "count_list evs BossDefeated = 0"
  using assms
proof (induction evs)
  case Nil
  { case 1 show ?case by simp }
  { case 2 show ?case by simp }
  { case 3 show ?case by simp }
  { case 4 show ?case by simp }
  { case 5 show ?case by simp }
next
  case (Cons ev evs)
  { case 1 then show ?case using Cons.IH(1) by (cases ev) simp_all }
  { case 2 then show ?case using Cons.IH(2) by (cases ev) simp_all }
  { case 3 then show ?case using Cons.IH(3) by (cases ev) simp_all }
  { case 4 then show ?case using Cons.IH(4) by (cases ev) simp_all }
  { case 5 then show ?case using Cons.IH(5) by (cases ev) simp_all }
qed

lemma rev_upt_split: "i < n \<Longrightarrow> rev [0 ..< n] = rev [Suc i ..< n] @ i # rev [0 ..< i]"
proof -
  assume i: "i < n"
  have "[0 ..< n] = [0 ..< i] @ [i ..< n]"
    using i upt_add_eq_append [of 0 i "n - i"] by simp
  also have "[i ..< n] = i # [Suc i ..< n]"
    using i by (simp add: upt_conv_Cons)
  finally show ?thesis by simp
qed

lemma check_unfold:
  "checkCollisions ov cb rnd now w =
     (if playerHit ov (afterGrenades ov cb rnd w)
      then emit GameOver (afterGrenades ov cb rnd w)
      else collectLoop ov now (length (powerUps (afterGrenades ov cb rnd w)))
             (afterGrenades ov cb rnd w))"
  by (simp add: checkCollisions_def afterGrenades_def afterBullets_def playerHit_def Let_def)

lemma scored_afterBullets: "scoredStep cb w (afterBullets ov cb rnd w)"
  by (simp add: afterBullets_def bulletLoop_fold foldB_scored)

lemma scored_grenadePass:
  "scoredStep cb (afterBullets ov cb rnd w) (afterGrenades ov cb rnd w)"
  by (simp add: afterGrenades_def grenadeLoop_fold foldG_scored)

lemma scored_afterGrenades: "scoredStep cb w (afterGrenades ov cb rnd w)"
  by (rule scored_trans [OF scored_afterBullets scored_grenadePass])

lemma last_extends: "extends (afterGrenades ov cb rnd w) (checkCollisions ov cb rnd now w)"
  by (simp add: check_unfold collect_extends emit_extends)

lemma lastEvents_eq:
  "lastEvents ov cb rnd now w =
     (if playerHit ov (afterGrenades ov cb rnd w) then [GameOver]
      else newEvents (afterGrenades ov cb rnd w)
             (collectLoop ov now (length (powerUps (afterGrenades ov cb rnd w)))
                (afterGrenades ov cb rnd w)))"
  by (simp add: lastEvents_def check_unfold emit_extends)

lemma trace_split:
  "trace ov cb rnd now w =
     newEvents w (afterBullets ov cb rnd w)
     @ newEvents (afterBullets ov cb rnd w) (afterGrenades ov cb rnd w)
     @ lastEvents ov cb rnd now w"
proof -
  have a: "trace ov cb rnd now w
             = newEvents w (afterGrenades ov cb rnd w) @ lastEvents ov cb rnd now w"
    unfolding trace_def lastEvents_def
    using new_comp [OF scored_extends [OF scored_afterGrenades] last_extends]
    by (simp add: newEvents_def)
  have b: "newEvents w (afterGrenades ov cb rnd w)
             = newEvents w (afterBullets ov cb rnd w)
               @ newEvents (afterBullets ov cb rnd w) (afterGrenades ov cb rnd w)"
    by (rule new_comp [OF scored_extends [OF scored_afterBullets]
          scored_extends [OF scored_grenadePass]])
  show ?thesis by (simp add: a b)
qed

lemma trace_two:
  "trace ov cb rnd now w
     = newEvents w (afterGrenades ov cb rnd w) @ lastEvents ov cb rnd now w"
  using new_comp [OF scored_extends [OF scored_afterBullets] scored_extends [OF scored_grenadePass]]
  by (simp add: trace_split)

lemma last_cases:
  "lastEvents ov cb rnd now w = [GameOver] \<and> playerHit ov (afterGrenades ov cb rnd w)
   \<or> list_all isPickup (lastEvents ov cb rnd now w) \<and> \<not> playerHit ov (afterGrenades ov cb rnd w)"
  by (simp add: lastEvents_eq collect_events)

lemma last_about: "filter (aboutBullet i) (lastEvents ov cb rnd now w) = []"
  using last_cases [of ov cb rnd now w] pickup_only(1) by auto

lemma last_damaged: "damaged s (lastEvents ov cb rnd now w) = []"
  using last_cases [of ov cb rnd now w] pickup_only(2) by auto

lemma last_destroyed: "destroyedIn (lastEvents ov cb rnd now w) = []"
  using last_cases [of ov cb rnd now w] pickup_only(3) by auto

lemma last_boss: "count_list (lastEvents ov cb rnd now w) BossDefeated = 0"
  using last_cases [of ov cb rnd now w] pickup_only(5) by auto

lemma bulletPass_story:
  assumes "i < length (bullets w)"
  shows "filter (aboutBullet i) (newEvents w (afterBullets ov cb rnd w))
           = bulletStory ov i (bsprite (bullets w ! i))
               (rev (enemies (beforeBullet ov cb rnd i w)))"
proof -
  let ?v = "visitBullet ov cb rnd"
  let ?wA = "beforeBullet ov cb rnd i w"
  let ?wB = "?v i ?wA"
  have sp: "afterBullets ov cb rnd w = fold ?v (rev [0 ..< i]) ?wB"
    using assms
    by (simp add: afterBullets_def bulletLoop_fold rev_upt_split [OF assms] beforeBullet_def)
  have eA: "extends w ?wA"
    unfolding beforeBullet_def by (rule scored_extends [OF foldB_scored])
  have eB: "extends ?wA ?wB"
    by (rule scored_extends [OF visitB_scored])
  have eC: "extends ?wB (fold ?v (rev [0 ..< i]) ?wB)"
    by (rule scored_extends [OF foldB_scored])
  have n: "newEvents w (afterBullets ov cb rnd w)
             = newEvents w ?wA @ newEvents ?wA ?wB @ newEvents ?wB (fold ?v (rev [0 ..< i]) ?wB)"
    unfolding sp
    using new_comp [OF eA ext_comp [OF eB eC]] new_comp [OF eB eC] by simp
  have fA: "filter (aboutBullet i) (newEvents w ?wA) = []"
    unfolding beforeBullet_def by (rule foldB_story) simp
  have fC: "filter (aboutBullet i) (newEvents ?wB (fold ?v (rev [0 ..< i]) ?wB)) = []"
    by (rule foldB_story) simp
  have tk: "take (Suc i) (bullets ?wA) = take (Suc i) (bullets w)"
    unfolding beforeBullet_def by (rule foldB_bullets) simp
  have "bullets ?wA ! i = take (Suc i) (bullets ?wA) ! i"
    by simp
  also have "\<dots> = bullets w ! i"
    unfolding tk by simp
  finally have bi: "bullets ?wA ! i = bullets w ! i" .
  show ?thesis
    unfolding n by (simp add: fA fC visitB_story bi)
qed

lemma damaged_about:
  "damaged (ByBullet i) evs = damaged (ByBullet i) (filter (aboutBullet i) evs)"
proof (induction evs)
  case Nil
  show ?case by simp
next
  case (Cons ev evs)
  then show ?case by (cases ev) auto
qed

lemma story_once: "length (damaged (ByBullet i) (bulletStory ov i b es)) \<le> 1"
  by (induction es) simp_all

lemma len_grenades_afterBullets: "grenades (afterBullets ov cb rnd w) = grenades w"
  by (rule scored_grenades [OF scored_afterBullets])

lemma grenadePass_damaged:
  assumes "i < length (grenades w)"
  shows "damaged (ByGrenade i)
           (newEvents (afterBullets ov cb rnd w) (afterGrenades ov cb rnd w))
           = (if hasExploded (grenades w ! i)
              then rev (filter (inBlast (grenades w ! i))
                         (enemies (beforeGrenade ov cb rnd i w)))
              else [])"
proof -
  let ?v = "visitGrenade cb rnd"
  let ?w0 = "afterBullets ov cb rnd w"
  let ?wA = "beforeGrenade ov cb rnd i w"
  let ?wB = "?v i ?wA"
  have wA: "?wA = fold ?v (rev [Suc i ..< length (grenades w)]) ?w0"
    by (simp add: beforeGrenade_def afterBullets_def)
  have sp: "afterGrenades ov cb rnd w = fold ?v (rev [0 ..< i]) ?wB"
    by (simp add: afterGrenades_def grenadeLoop_fold len_grenades_afterBullets
          rev_upt_split [OF assms] wA)
  have sA: "scoredStep cb ?w0 ?wA"
    unfolding wA by (rule foldG_scored)
  have eA: "extends ?w0 ?wA"
    by (rule scored_extends [OF sA])
  have eB: "extends ?wA ?wB"
    by (rule scored_extends [OF visitG_scored])
  have eC: "extends ?wB (fold ?v (rev [0 ..< i]) ?wB)"
    by (rule scored_extends [OF foldG_scored])
  have n: "newEvents ?w0 (afterGrenades ov cb rnd w)
             = newEvents ?w0 ?wA @ newEvents ?wA ?wB
               @ newEvents ?wB (fold ?v (rev [0 ..< i]) ?wB)"
    unfolding sp
    using new_comp [OF eA ext_comp [OF eB eC]] new_comp [OF eB eC] by simp
  have fA: "damaged (ByGrenade i) (newEvents ?w0 ?wA) = []"
    unfolding wA by (rule foldG_damaged) simp
  have fC: "damaged (ByGrenade i) (newEvents ?wB (fold ?v (rev [0 ..< i]) ?wB)) = []"
    by (rule foldG_damaged) simp
  have gi: "grenades ?wA = grenades w"
    using scored_grenades [OF sA] by (simp add: len_grenades_afterBullets)
  show ?thesis
    unfolding n by (simp add: damaged_append fA fC visitG_damaged gi)
qed

lemma scored_player: "scoredStep cb w w' \<Longrightarrow> player w' = player w \<and> powerUps w' = powerUps w"
  by (simp add: scoredStep_def)

lemma scored_quiet:
  "scoredStep cb w w' \<Longrightarrow> GameOver \<notin> set (newEvents w w') \<and> filter isPickup (newEvents w w') = []"
  by (simp add: scoredStep_def)

lemma check_score:
  "score (checkCollisions ov cb rnd now w) = score (afterGrenades ov cb rnd w)"
  "kills (checkCollisions ov cb rnd now w) = kills (afterGrenades ov cb rnd w)"
  by (simp_all add: check_unfold collect_frame)

lemma points_table:
  "getPointsForEnemy SOLDIER = 100" "getPointsForEnemy TANK = 300"
  "getPointsForEnemy JEEP = 200" "getPointsForEnemy KNIFE_SOLDIER = 150"
  "getPointsForEnemy ROCKET_LAUNCHER = 250" "getPointsForEnemy COVERED_SOLDIER = 175"
  "getPointsForEnemy BUNKER = 400" "getPointsForEnemy BOSS = 1000"
  by (simp_all add: getPointsForEnemy_def SOLDIER_def TANK_def JEEP_def KNIFE_SOLDIER_def
        ROCKET_LAUNCHER_def COVERED_SOLDIER_def BUNKER_def BOSS_def
        SOLDIER_POINTS_def TANK_POINTS_def JEEP_POINTS_def KNIFE_SOLDIER_POINTS_def
        ROCKET_LAUNCHER_POINTS_def COVERED_SOLDIER_POINTS_def BUNKER_POINTS_def BOSS_POINTS_def)

lemma points_default:
  "t \<notin> {SOLDIER, TANK, JEEP, KNIFE_SOLDIER, ROCKET_LAUNCHER, COVERED_SOLDIER, BUNKER, BOSS}
   \<Longrightarrow> getPointsForEnemy t = 100"
  by (simp add: getPointsForEnemy_def)

lemma scan_bullets_exact:
  "bullets (scanEnemies ov cb rnd i b n w)
     = (if damaged (ByBullet i) (newEvents w (scanEnemies ov cb rnd i b n w)) = []
        then bullets w else splice1 i (bullets w))"
proof (induction n arbitrary: w)
  case 0
  show ?case by (simp add: newEvents_refl)
next
  case (Suc j)
  let ?e = "enemies w ! j"
  let ?w1 = "emit (BulletTested i ?e) w"
  show ?case
  proof (cases "ov b (sprite ?e)")
    case True
    then show ?thesis
      by (simp add: Let_def hit_frame new_comp [OF removed_step(1) hit_extends]
            removed_step(2) damaged_append hit_damaged)
  next
    case False
    then show ?thesis
      using Suc.IH [of ?w1]
      by (simp add: Let_def new_comp [OF tested_step(1) scan_extends] tested_step(2)
            damaged_append)
  qed
qed

lemma visitB_bullets_exact:
  "bullets (visitBullet ov cb rnd i w)
     = (if damaged (ByBullet i) (newEvents w (visitBullet ov cb rnd i w)) = []
        then bullets w else splice1 i (bullets w))"
  by (simp add: visitBullet_def scan_bullets_exact)

lemma visitB_other: "i \<noteq> k \<Longrightarrow> damaged (ByBullet i) (newEvents w (visitBullet ov cb rnd k w)) = []"
  by (simp add: damaged_about [of i "newEvents w (visitBullet ov cb rnd k w)"] visitB_story)

lemma foldB_other:
  "i \<notin> set ks \<Longrightarrow> damaged (ByBullet i) (newEvents w (fold (visitBullet ov cb rnd) ks w)) = []"
  by (simp add: damaged_about [of i "newEvents w (fold (visitBullet ov cb rnd) ks w)"] foldB_story)

lemma splice1_at: "length xs = k \<Longrightarrow> splice1 k (xs @ y # ys) = xs @ ys"
  by (simp add: splice1_def)

lemma bulletPass_bullets_upto:
  "m \<le> length (bullets w) \<Longrightarrow>
   bullets (fold (visitBullet ov cb rnd) (rev [length (bullets w) - m ..< length (bullets w)]) w)
     = take (length (bullets w) - m) (bullets w)
       @ map snd (filter (unhit (newEvents w
            (fold (visitBullet ov cb rnd) (rev [length (bullets w) - m ..< length (bullets w)]) w)))
           (enumerate (length (bullets w) - m) (drop (length (bullets w) - m) (bullets w))))"
proof (induction m)
  case 0
  show ?case by (simp add: newEvents_refl)
next
  case (Suc m)
  let ?n = "length (bullets w)"
  let ?v = "visitBullet ov cb rnd"
  let ?k = "?n - Suc m"
  have k: "?k < ?n" "?n - m = Suc ?k" using Suc.prems by simp_all
  let ?wA = "fold ?v (rev [Suc ?k ..< ?n]) w"
  let ?wB = "?v ?k ?wA"
  let ?NA = "newEvents w ?wA"
  let ?NB = "newEvents ?wA ?wB"
  have up: "rev [?k ..< ?n] = rev [Suc ?k ..< ?n] @ [?k]"
    using k(1) by (simp add: upt_conv_Cons)
  have fo: "fold ?v (rev [?k ..< ?n]) w = ?wB"
    by (simp add: up)
  have ih: "bullets ?wA = take (Suc ?k) (bullets w)
              @ map snd (filter (unhit ?NA) (enumerate (Suc ?k) (drop (Suc ?k) (bullets w))))"
    using Suc.IH Suc.prems by (simp add: k(2))
  have n: "newEvents w ?wB = ?NA @ ?NB"
    by (rule new_comp [OF scored_extends [OF foldB_scored] scored_extends [OF visitB_scored]])
  have A0: "damaged (ByBullet ?k) ?NA = []"
    by (rule foldB_other) simp
  have same: "filter (unhit (?NA @ ?NB)) (enumerate (Suc ?k) (drop (Suc ?k) (bullets w)))
                = filter (unhit ?NA) (enumerate (Suc ?k) (drop (Suc ?k) (bullets w)))"
  proof (rule filter_cong [OF refl])
    fix ib
    assume "ib \<in> set (enumerate (Suc ?k) (drop (Suc ?k) (bullets w)))"
    then have "Suc ?k \<le> fst ib"
      by (simp add: in_set_enumerate_eq)
    then have "fst ib \<noteq> ?k" by simp
    then show "unhit (?NA @ ?NB) ib = unhit ?NA ib"
      by (simp add: unhit_def damaged_append visitB_other)
  qed
  have tk: "take (Suc ?k) (bullets w) = take ?k (bullets w) @ [bullets w ! ?k]"
    using k(1) by (simp add: take_Suc_conv_app_nth)
  have en: "enumerate ?k (drop ?k (bullets w))
              = (?k, bullets w ! ?k) # enumerate (Suc ?k) (drop (Suc ?k) (bullets w))"
    using k(1) by (simp add: Cons_nth_drop_Suc [symmetric])
  have lk: "length (take ?k (bullets w)) = ?k"
    using k(1) by simp
  have hk: "unhit (?NA @ ?NB) (?k, bullets w ! ?k) = (damaged (ByBullet ?k) ?NB = [])"
    using A0 by (simp add: unhit_def damaged_append)
  show ?case
  proof (cases "damaged (ByBullet ?k) ?NB = []")
    case True
    have "bullets ?wB = bullets ?wA"
      using True by (simp add: visitB_bullets_exact)
    then show ?thesis
      unfolding fo n en using True
      by (simp add: ih same tk hk)
  next
    case False
    have "bullets ?wB = splice1 ?k (bullets ?wA)"
      using False by (simp add: visitB_bullets_exact)
    then have "bullets ?wB = take ?k (bullets w)
                 @ map snd (filter (unhit ?NA) (enumerate (Suc ?k) (drop (Suc ?k) (bullets w))))"
      unfolding ih tk using splice1_at [OF lk] by simp
    then show ?thesis
      unfolding fo n en using False
      by (simp add: same hk)
  qed
qed

lemma bulletPass_bullets:
  "bullets (afterBullets ov cb rnd w)
     = map snd (filter (unhit (newEvents w (afterBullets ov cb rnd w)))
         (enumerate 0 (bullets w)))"
  using bulletPass_bullets_upto [of "length (bullets w)" w ov cb rnd]
  by (simp add: afterBullets_def bulletLoop_fold)

lemma check_bullets:
  "bullets (checkCollisions ov cb rnd now w) = bullets (afterBullets ov cb rnd w)"
  by (simp add: check_unfold collect_frame afterGrenades_def grenadeLoop_fold foldG_bullets)

lemma trace_damaged_bullet:
  "damaged (ByBullet i) (trace ov cb rnd now w)
     = damaged (ByBullet i) (newEvents w (afterBullets ov cb rnd w))"
proof -
  have g: "filter (aboutBullet i)
             (newEvents (afterBullets ov cb rnd w) (afterGrenades ov cb rnd w)) = []"
    by (simp add: afterGrenades_def grenadeLoop_fold foldG_about)
  have "filter (aboutBullet i) (trace ov cb rnd now w)
          = filter (aboutBullet i) (newEvents w (afterBullets ov cb rnd w))"
    by (simp add: trace_split g last_about)
  then show ?thesis
    by (simp add: damaged_about [of i "trace ov cb rnd now w"]
          damaged_about [of i "newEvents w (afterBullets ov cb rnd w)"])
qed

lemma bullets_returned:
  "bullets (checkCollisions ov cb rnd now w)
     = map snd (filter (unhit (trace ov cb rnd now w)) (enumerate 0 (bullets w)))"
proof -
  have "unhit (trace ov cb rnd now w) = unhit (newEvents w (afterBullets ov cb rnd w))"
    by (rule ext) (simp add: unhit_def trace_damaged_bullet)
  then show ?thesis
    by (simp add: check_bullets bulletPass_bullets)
qed

lemma inBlast_sq:
  "0 \<le> explosionRadius g \<Longrightarrow>
   inBlast g e =
     ((sx (gsprite g) - sx (sprite e)) * (sx (gsprite g) - sx (sprite e))
      + (sy (gsprite g) - sy (sprite e)) * (sy (gsprite g) - sy (sprite e))
        \<le> explosionRadius g * explosionRadius g)"
proof -
  assume r: "0 \<le> explosionRadius g"
  have "sqrt (explosionRadius g * explosionRadius g) = explosionRadius g"
    using r by simp
  then show ?thesis
    unfolding inBlast_def Distance_Between_def
    by (metis real_sqrt_le_iff)
qed

lemmas demo_defs = demoWorld_def samePlace_def spriteAt_def nearSoldier_def nearTank_def
  sideTank_def farSoldier_def Enemy_new_def Grenade_new_def Player_new_def
  GRENADE_EXPLOSION_RADIUS_def GRENADE_INITIAL_COUNT_def

lemmas run_defs = visitBullet_def visitGrenade_def hitEnemy_def takeDamage_def
  Enemy_takeDamage_def emit_def splice1_def Let_def inBlast_sq getPointsForEnemy_def
  SOLDIER_def TANK_def JEEP_def KNIFE_SOLDIER_def ROCKET_LAUNCHER_def COVERED_SOLDIER_def
  BUNKER_def BOSS_def SOLDIER_POINTS_def TANK_POINTS_def JEEP_POINTS_def
  KNIFE_SOLDIER_POINTS_def ROCKET_LAUNCHER_POINTS_def COVERED_SOLDIER_POINTS_def
  BUNKER_POINTS_def BOSS_POINTS_def

lemma demo_afterBullets:
  "afterBullets samePlace True (\<lambda>k. 0) demoWorld =
     demoWorld\<lparr>bullets := [],
       enemies := [nearSoldier, nearTank\<lparr>health := 2\<rparr>, sideTank, farSoldier],
       events := [BulletTested 0 farSoldier, BulletTested 0 sideTank, BulletTested 0 nearTank,
                  BulletDestroyed 0, Damage (ByBullet 0) nearTank]\<rparr>"
  by (simp add: afterBullets_def demo_defs run_defs)

lemma demo_trace:
  "trace samePlace True (\<lambda>k. 0) 0 demoWorld =
     [BulletTested 0 farSoldier, BulletTested 0 sideTank, BulletTested 0 nearTank,
      BulletDestroyed 0, Damage (ByBullet 0) nearTank,
      Damage (ByGrenade 1) sideTank, Damage (ByGrenade 1) (nearTank\<lparr>health := 2\<rparr>),
      Damage (ByGrenade 1) nearSoldier, Destroyed (nearSoldier\<lparr>health := 0\<rparr>),
      ScoreUpdate 100 1, GameOver]"
  by (simp add: trace_def checkCollisions_def demo_defs run_defs)

lemma boss_trace:
  "trace samePlace True (\<lambda>k. 0) 0 bossWorld =
     [BulletTested 0 lastStandBoss, BulletDestroyed 0, Damage (ByBullet 0) lastStandBoss,
      BossDefeated,
      Destroyed (lastStandBoss\<lparr>health := 0, cls := BossC 3 20,
                   sprite := (sprite lastStandBoss)\<lparr>tint := Some 16711935\<rparr>, speed := 90\<rparr>),
      ScoreUpdate 1000 1]"
  by (simp add: trace_def checkCollisions_def bossWorld_def lastStandBoss_def Boss_new_def
        Boss_takeDamage_def BOSS_HEALTH_def BOSS_SPEED_def demo_defs run_defs)

lemma bullet_read_in_range:
  assumes "i < length (bullets w)"
  shows "i < length (bullets (beforeBullet ov cb rnd i w))"
proof -
  have "take (Suc i) (bullets (beforeBullet ov cb rnd i w)) = take (Suc i) (bullets w)"
    unfolding beforeBullet_def by (rule foldB_bullets) simp
  then have "length (take (Suc i) (bullets (beforeBullet ov cb rnd i w)))
               = length (take (Suc i) (bullets w))"
    by simp
  then show ?thesis
    using assms by (simp add: min_def split: if_splits)
qed

lemma grenade_read_in_range:
  "grenades (beforeGrenade ov cb rnd i w) = grenades w"
  unfolding beforeGrenade_def
  using scored_grenades [OF foldG_scored] scored_grenades [OF scored_afterBullets]
  by simp

text \<open>
  Claim C2. In one \<open>checkCollisions\<close> call the bullet at index \<open>i\<close> of the array passed
  in is tested against the enemies present when its turn comes, last index first; at
  the first overlap it is destroyed and spliced out, that enemy's \<open>takeDamage\<close> is
  called, and the record holds nothing further about the bullet: no later test and no
  second \<open>takeDamage\<close>, however many enemies overlap it. The bullets returned are the
  ones that triggered no \<open>takeDamage\<close>.
\<close>

theorem bullet_single_hit:
  assumes "i < length (bullets w)"
  shows "filter (aboutBullet i) (trace ov cb rnd now w)
           = bulletStory ov i (bsprite (bullets w ! i))
               (rev (enemies (beforeBullet ov cb rnd i w)))
       \<and> length (damaged (ByBullet i) (trace ov cb rnd now w)) \<le> 1
       \<and> bullets (checkCollisions ov cb rnd now w)
           = map snd (filter (unhit (trace ov cb rnd now w)) (enumerate 0 (bullets w)))"
proof -
  have g: "filter (aboutBullet i)
             (newEvents (afterBullets ov cb rnd w) (afterGrenades ov cb rnd w)) = []"
    by (simp add: afterGrenades_def grenadeLoop_fold foldG_about)
  have a: "filter (aboutBullet i) (trace ov cb rnd now w)
             = bulletStory ov i (bsprite (bullets w ! i))
                 (rev (enemies (beforeBullet ov cb rnd i w)))"
    by (simp add: trace_split bulletPass_story [OF assms] g last_about)
  have b: "length (damaged (ByBullet i) (trace ov cb rnd now w)) \<le> 1"
    using story_once [of i ov "bsprite (bullets w ! i)" "rev (enemies (beforeBullet ov cb rnd i w))"]
    by (simp add: damaged_about [of i "trace ov cb rnd now w"] a)
  have c: "bullets (checkCollisions ov cb rnd now w)
             = map snd (filter (unhit (trace ov cb rnd now w)) (enumerate 0 (bullets w)))"
    by (rule bullets_returned)
  from a b c show ?thesis by simp
qed

theorem bullet_single_hit_witness:
  "0 < length (bullets demoWorld)
   \<and> samePlace (bsprite (bullets demoWorld ! 0)) (sprite nearSoldier)
   \<and> samePlace (bsprite (bullets demoWorld ! 0)) (sprite nearTank)
   \<and> filter (aboutBullet 0) (trace samePlace True (\<lambda>k. 0) 0 demoWorld)
       = [BulletTested 0 farSoldier, BulletTested 0 sideTank, BulletTested 0 nearTank,
          BulletDestroyed 0, Damage (ByBullet 0) nearTank]
   \<and> length (damaged (ByBullet 0) (trace samePlace True (\<lambda>k. 0) 0 demoWorld)) \<le> 1"
proof -
  have h: "0 < length (bullets demoWorld)"
    by (simp add: demoWorld_def)
  show ?thesis
    using h bullet_single_hit [OF h, of samePlace True "\<lambda>k. 0" 0]
    by (simp add: beforeBullet_def demo_defs)
qed

text \<open>
  Claim C3. In one \<open>checkCollisions\<close> call the grenade at index \<open>i\<close> causes no
  \<open>takeDamage\<close> call when its exploded flag is false. When the flag is true it causes
  exactly one call for each enemy that is in the array when the grenade's turn comes
  and lies within its explosion radius, last index first, and none for any other
  enemy; the number of enemies hit is not limited.
\<close>

theorem grenade_blast:
  assumes "i < length (grenades w)"
  shows "damaged (ByGrenade i) (trace ov cb rnd now w)
           = (if hasExploded (grenades w ! i)
              then rev (filter (inBlast (grenades w ! i))
                         (enemies (beforeGrenade ov cb rnd i w)))
              else [])"
proof -
  have b: "damaged (ByGrenade i) (newEvents w (afterBullets ov cb rnd w)) = []"
    by (simp add: afterBullets_def bulletLoop_fold foldB_no_grenade)
  show ?thesis
    by (simp add: trace_split damaged_append b grenadePass_damaged [OF assms] last_damaged)
qed

theorem grenade_blast_witness:
  "1 < length (grenades demoWorld) \<and> 0 < length (grenades demoWorld)
   \<and> hasExploded (grenades demoWorld ! 1) \<and> \<not> hasExploded (grenades demoWorld ! 0)
   \<and> damaged (ByGrenade 1) (trace samePlace True (\<lambda>k. 0) 0 demoWorld)
       = [sideTank, nearTank\<lparr>health := 2\<rparr>, nearSoldier]
   \<and> damaged (ByGrenade 0) (trace samePlace True (\<lambda>k. 0) 0 demoWorld) = []"
proof -
  have h: "1 < length (grenades demoWorld)" "0 < length (grenades demoWorld)"
    by (simp_all add: demoWorld_def)
  have a: "damaged (ByGrenade 1) (trace samePlace True (\<lambda>k. 0) 0 demoWorld)
             = [sideTank, nearTank\<lparr>health := 2\<rparr>, nearSoldier]"
    using grenade_blast [OF h(1), of samePlace True "\<lambda>k. 0" 0]
    by (simp add: beforeGrenade_def demo_afterBullets) (simp add: demo_defs inBlast_sq)
  have b: "damaged (ByGrenade 0) (trace samePlace True (\<lambda>k. 0) 0 demoWorld) = []"
    using grenade_blast [OF h(2), of samePlace True "\<lambda>k. 0" 0]
    by (simp add: demo_defs)
  show ?thesis
    using h a b by (simp add: demo_defs)
qed

text \<open>
  Claim C4. \<open>checkCollisions\<close> never calls \<open>onGameOver\<close> while the player is invincible
  or dead. When it does call it, that call is the last thing the function does and it
  happens once: no power-up is applied or collected, no grenade count is reported, and
  the player and the power-ups are returned as they were passed in. It calls it
  exactly when the player, neither invincible nor dead, overlaps an enemy that the
  bullet and grenade passes have left.
\<close>

theorem player_death:
  "(isInvincible (player w) \<or> isDead (player w)
      \<longrightarrow> GameOver \<notin> set (trace ov cb rnd now w))
   \<and> (GameOver \<in> set (trace ov cb rnd now w)
      \<longrightarrow> last (trace ov cb rnd now w) = GameOver
        \<and> count_list (trace ov cb rnd now w) GameOver = 1
        \<and> filter isPickup (trace ov cb rnd now w) = []
        \<and> player (checkCollisions ov cb rnd now w) = player w
        \<and> powerUps (checkCollisions ov cb rnd now w) = powerUps w)
   \<and> (GameOver \<in> set (trace ov cb rnd now w)) = playerHit ov (afterGrenades ov cb rnd w)"
proof -
  let ?w2 = "afterGrenades ov cb rnd w"
  let ?tr = "trace ov cb rnd now w"
  have q: "GameOver \<notin> set (newEvents w ?w2)" "filter isPickup (newEvents w ?w2) = []"
    using scored_quiet [OF scored_afterGrenades] by simp_all
  have p: "player ?w2 = player w" "powerUps ?w2 = powerUps w"
    using scored_player [OF scored_afterGrenades] by simp_all
  have c0: "count_list (newEvents w ?w2) GameOver = 0"
    using q(1) by (simp add: count_list_0_iff)
  show ?thesis
  proof (cases "playerHit ov ?w2")
    case True
    have l: "lastEvents ov cb rnd now w = [GameOver]"
      using True by (simp add: lastEvents_eq)
    have ck: "checkCollisions ov cb rnd now w = emit GameOver ?w2"
      using True by (simp add: check_unfold)
    have a: "\<not> (isInvincible (player w) \<or> isDead (player w))"
      using True p by (simp add: playerHit_def)
    show ?thesis
      using a True by (simp add: trace_two l q c0 ck p)
  next
    case False
    have l: "list_all isPickup (lastEvents ov cb rnd now w)"
      using False last_cases [of ov cb rnd now w] by simp
    have "GameOver \<notin> set ?tr"
      using q(1) pickup_only(4) [OF l] by (simp add: trace_two)
    then show ?thesis
      using False by simp
  qed
qed

theorem player_death_witness:
  "isInvincible (player shieldedWorld)
   \<and> GameOver \<notin> set (trace samePlace True (\<lambda>k. 0) 0 shieldedWorld)
   \<and> GameOver \<in> set (trace samePlace True (\<lambda>k. 0) 0 demoWorld)
   \<and> samePlace (psprite (player demoWorld)) (usprite (powerUps demoWorld ! 0))
   \<and> filter isPickup (trace samePlace True (\<lambda>k. 0) 0 demoWorld) = []
   \<and> powerUps (checkCollisions samePlace True (\<lambda>k. 0) 0 demoWorld) = powerUps demoWorld
   \<and> player (checkCollisions samePlace True (\<lambda>k. 0) 0 demoWorld) = player demoWorld"
proof -
  have h1: "isInvincible (player shieldedWorld)"
    by (simp add: shieldedWorld_def activateInvincibility_def)
  have h2: "GameOver \<in> set (trace samePlace True (\<lambda>k. 0) 0 demoWorld)"
    by (simp add: demo_trace)
  have s: "samePlace (psprite (player demoWorld)) (usprite (powerUps demoWorld ! 0))"
    by (simp add: demo_defs)
  show ?thesis
    using h1 h2 s player_death [of shieldedWorld samePlace True "\<lambda>k. 0" 0]
      player_death [of demoWorld samePlace True "\<lambda>k. 0" 0]
    by simp
qed

lemma tally_append: "tally rnd c (xs @ ys) = tally rnd (tally rnd c xs) ys"
  by (induction rnd c xs rule: tally.induct) simp_all

lemma awarded_append:
  "awarded cb rnd c (xs @ ys) = awarded cb rnd c xs @ awarded cb rnd (tally rnd c xs) ys"
  by (induction cb rnd c xs rule: awarded.induct) (simp_all add: Let_def split: prod.splits)

lemma award_refl: "awardStep cb rnd w w"
  by (simp add: awardStep_def extends_refl newEvents_refl)

lemma award_trans:
  assumes "awardStep cb rnd w w1" "awardStep cb rnd w1 w2"
  shows "awardStep cb rnd w w2"
proof -
  have e1: "extends w w1" and e2: "extends w1 w2"
    using assms by (simp_all add: awardStep_def)
  have n: "newEvents w w2 = newEvents w w1 @ newEvents w1 w2"
    by (rule new_comp [OF e1 e2])
  have e: "extends w w2"
    by (rule ext_comp [OF e1 e2])
  have t1: "tally rnd (counters w) (newEvents w w1) = counters w1"
    using assms(1) by (simp add: awardStep_def)
  have a: "filter isAward (newEvents w w2) = awarded cb rnd (counters w) (newEvents w w2)"
    using assms by (simp add: awardStep_def n awarded_append)
  have t: "tally rnd (counters w) (newEvents w w2) = counters w2"
    using assms by (simp add: awardStep_def n tally_append)
  have l: "length (enemies w2) + length (destroyedIn (newEvents w w2)) = length (enemies w)"
    using assms by (simp add: awardStep_def n destroyedIn_append)
  have h: "(\<forall>e \<in> set (enemies w). 0 < health e) \<longrightarrow> (\<forall>e \<in> set (enemies w2). 0 < health e)"
    using assms unfolding awardStep_def by blast
  show ?thesis
    unfolding awardStep_def using e a t l h by blast
qed

lemma takeDamage_alive:
  "takeDamage r e = ((False, e1), u) \<Longrightarrow> 0 < health e \<Longrightarrow> 0 < health e1"
  by (cases "cls e")
    (auto simp add: takeDamage_def Enemy_takeDamage_def CoveredSoldier_takeDamage_def
       Boss_takeDamage_def Let_def split: if_splits)

lemma set_splice1_update: "set (splice1 j (xs[j := e])) \<subseteq> set xs"
proof -
  have "set (take j xs) \<subseteq> set xs" "set (drop (Suc j) xs) \<subseteq> set xs"
    by (simp_all add: set_take_subset set_drop_subset)
  then show ?thesis
    by (simp add: splice1_def)
qed

lemma length_splice1: "j < length xs \<Longrightarrow> Suc (length (splice1 j xs)) = length xs"
  by (simp add: splice1_def)

lemma hit_award_events:
  "filter isAward (newEvents w (hitEnemy cb rnd src j w))
     = awarded cb rnd (counters w) (newEvents w (hitEnemy cb rnd src j w))"
  by (simp add: hitEnemy_def newEvents_def emit_def Let_def counters_def outcome_def
        split: prod.splits)

lemma hit_award_tally:
  "tally rnd (counters w) (newEvents w (hitEnemy cb rnd src j w))
     = counters (hitEnemy cb rnd src j w)"
  by (simp add: hitEnemy_def newEvents_def emit_def Let_def counters_def outcome_def
        split: prod.splits)

lemma hit_award_length:
  "j < length (enemies w) \<Longrightarrow>
   length (enemies (hitEnemy cb rnd src j w))
     + length (destroyedIn (newEvents w (hitEnemy cb rnd src j w))) = length (enemies w)"
  by (auto simp add: hitEnemy_def newEvents_def emit_def Let_def splice1_def split: prod.splits)

lemma hit_award_alive:
  assumes "\<forall>e \<in> set (enemies w). 0 < health e" "j < length (enemies w)"
  shows "\<forall>e \<in> set (enemies (hitEnemy cb rnd src j w)). 0 < health e"
proof -
  obtain d e1 u where td: "takeDamage (rnd (drawn w)) (enemies w ! j) = ((d, e1), u)"
    by (metis prod.collapse)
  show ?thesis
  proof (cases d)
    case True
    have en: "enemies (hitEnemy cb rnd src j w) = splice1 j ((enemies w)[j := e1])"
      using td True by (simp add: hitEnemy_def emit_def Let_def)
    show ?thesis
      unfolding en using set_splice1_update [of j "enemies w" e1] assms(1) by blast
  next
    case False
    have en: "enemies (hitEnemy cb rnd src j w) = (enemies w)[j := e1]"
      using td False by (simp add: hitEnemy_def emit_def Let_def)
    have a: "0 < health (enemies w ! j)"
      using assms by simp
    have b: "takeDamage (rnd (drawn w)) (enemies w ! j) = ((False, e1), u)"
      using td False by simp
    have "0 < health e1"
      by (rule takeDamage_alive [OF b a])
    then show ?thesis
      unfolding en using assms(1) set_update_subset_insert [of "enemies w" j e1] by blast
  qed
qed

lemma award_hit:
  assumes "j < length (enemies w)"
  shows "awardStep cb rnd w (hitEnemy cb rnd src j w)"
  unfolding awardStep_def
proof (intro conjI impI)
  show "extends w (hitEnemy cb rnd src j w)"
    by (rule hit_extends)
  show "filter isAward (newEvents w (hitEnemy cb rnd src j w))
          = awarded cb rnd (counters w) (newEvents w (hitEnemy cb rnd src j w))"
    by (rule hit_award_events)
  show "tally rnd (counters w) (newEvents w (hitEnemy cb rnd src j w))
          = counters (hitEnemy cb rnd src j w)"
    by (rule hit_award_tally)
  show "length (enemies (hitEnemy cb rnd src j w))
          + length (destroyedIn (newEvents w (hitEnemy cb rnd src j w))) = length (enemies w)"
    by (rule hit_award_length [OF assms])
  assume "\<forall>e \<in> set (enemies w). 0 < health e"
  then show "\<forall>e \<in> set (enemies (hitEnemy cb rnd src j w)). 0 < health e"
    using assms by (rule hit_award_alive)
qed

lemma award_tested: "awardStep cb rnd w (emit (BulletTested i e) w)"
  by (simp add: awardStep_def tested_step counters_def)

lemma award_removed:
  "awardStep cb rnd w ((emit (BulletDestroyed i) (emit (BulletTested i e) w))\<lparr>bullets := bs\<rparr>)"
  by (simp add: awardStep_def removed_step counters_def)

lemma award_scan:
  "n \<le> length (enemies w) \<Longrightarrow> awardStep cb rnd w (scanEnemies ov cb rnd i b n w)"
proof (induction n arbitrary: w)
  case 0
  show ?case by (simp add: award_refl)
next
  case (Suc j)
  let ?e = "enemies w ! j"
  let ?w1 = "emit (BulletTested i ?e) w"
  let ?w2 = "(emit (BulletDestroyed i) ?w1)\<lparr>bullets := splice1 i (bullets ?w1)\<rparr>"
  have j: "j < length (enemies ?w2)" "j \<le> length (enemies ?w1)"
    using Suc.prems by simp_all
  show ?case
  proof (cases "ov b (sprite ?e)")
    case True
    have "awardStep cb rnd w (hitEnemy cb rnd (ByBullet i) j ?w2)"
      by (rule award_trans [OF award_removed award_hit [OF j(1)]])
    then show ?thesis
      using True by (simp add: Let_def)
  next
    case False
    have "awardStep cb rnd w (scanEnemies ov cb rnd i b j ?w1)"
      by (rule award_trans [OF award_tested Suc.IH [OF j(2)]])
    then show ?thesis
      using False by (simp add: Let_def)
  qed
qed

lemma award_visitB: "awardStep cb rnd w (visitBullet ov cb rnd i w)"
  by (simp add: visitBullet_def award_scan)

lemma award_foldB: "awardStep cb rnd w (fold (visitBullet ov cb rnd) ks w)"
proof (induction ks arbitrary: w)
  case Nil
  show ?case by (simp add: award_refl)
next
  case (Cons k ks)
  show ?case
    using award_trans [OF award_visitB Cons.IH] by simp
qed

lemma award_blast:
  "n \<le> length (enemies w) \<Longrightarrow> awardStep cb rnd w (blastEnemies cb rnd i g n w)"
proof (induction n arbitrary: w)
  case 0
  show ?case by (simp add: award_refl)
next
  case (Suc j)
  have j: "j < length (enemies w)"
    using Suc.prems by simp
  show ?case
  proof (cases "inBlast g (enemies w ! j)")
    case True
    let ?w1 = "hitEnemy cb rnd (ByGrenade i) j w"
    have "j \<le> length (enemies ?w1)"
      using hit_enemies [OF j] by simp
    then have "awardStep cb rnd ?w1 (blastEnemies cb rnd i g j ?w1)"
      by (rule Suc.IH)
    then have "awardStep cb rnd w (blastEnemies cb rnd i g j ?w1)"
      by (rule award_trans [OF award_hit [OF j]])
    then show ?thesis
      using True by simp
  next
    case False
    have "awardStep cb rnd w (blastEnemies cb rnd i g j w)"
      using j by (intro Suc.IH) simp
    then show ?thesis
      using False by simp
  qed
qed

lemma award_visitG: "awardStep cb rnd w (visitGrenade cb rnd i w)"
  by (simp add: visitGrenade_def Let_def award_blast award_refl)

lemma award_foldG: "awardStep cb rnd w (fold (visitGrenade cb rnd) ks w)"
proof (induction ks arbitrary: w)
  case Nil
  show ?case by (simp add: award_refl)
next
  case (Cons k ks)
  show ?case
    using award_trans [OF award_visitG Cons.IH] by simp
qed

lemma pickup_award:
  "list_all isPickup evs \<Longrightarrow>
   filter isAward evs = [] \<and> awarded cb rnd c evs = [] \<and> tally rnd c evs = c"
proof (induction evs)
  case Nil
  show ?case by simp
next
  case (Cons ev evs)
  then show ?case by (cases ev) simp_all
qed

lemma collect_keeps:
  "drawn (collectLoop ov now n w) = drawn w"
  "enemies (collectLoop ov now n w) = enemies w"
  by (induction n arbitrary: w) (simp_all add: Let_def)

lemma award_collect: "awardStep cb rnd w (collectLoop ov now n w)"
proof -
  let ?N = "newEvents w (collectLoop ov now n w)"
  have p: "list_all isPickup ?N"
    by (rule collect_events)
  have a: "filter isAward ?N = [] \<and> awarded cb rnd (counters w) ?N = []
           \<and> tally rnd (counters w) ?N = counters w"
    by (rule pickup_award [OF p])
  have d: "destroyedIn ?N = []"
    by (rule pickup_only(3) [OF p])
  have c: "counters (collectLoop ov now n w) = counters w"
    by (simp add: counters_def collect_keeps collect_frame)
  show ?thesis
    unfolding awardStep_def using a d c
    by (simp add: collect_extends collect_keeps)
qed

lemma award_gameOver: "awardStep cb rnd w (emit GameOver w)"
  by (simp add: awardStep_def emit_extends counters_def)

lemma award_check: "awardStep cb rnd w (checkCollisions ov cb rnd now w)"
proof -
  have a: "awardStep cb rnd w (afterBullets ov cb rnd w)"
    by (simp add: afterBullets_def bulletLoop_fold award_foldB)
  have b: "awardStep cb rnd (afterBullets ov cb rnd w) (afterGrenades ov cb rnd w)"
    by (simp add: afterGrenades_def grenadeLoop_fold award_foldG)
  have c: "awardStep cb rnd (afterGrenades ov cb rnd w) (checkCollisions ov cb rnd now w)"
    by (simp add: check_unfold award_gameOver award_collect)
  show ?thesis
    by (rule award_trans [OF a award_trans [OF b c]])
qed

lemma trace_newEvents: "trace ov cb rnd now w = newEvents w (checkCollisions ov cb rnd now w)"
  by (simp add: trace_def newEvents_def)

lemma twoBullet_trace:
  "trace samePlace True (\<lambda>k. 0) 0 twoBulletWorld =
     [BulletTested 1 nearSoldier, BulletDestroyed 1, Damage (ByBullet 1) nearSoldier,
      Destroyed (nearSoldier\<lparr>health := 0\<rparr>), ScoreUpdate 100 1]"
  by (simp add: trace_def checkCollisions_def twoBulletWorld_def demo_defs run_defs)

text \<open>
  Claim C5. Over one \<open>checkCollisions\<close> call the score grows by the points of the
  enemies destroyed, read from the table Soldier 100, Tank 300, Jeep 200, KnifeSoldier
  150, RocketLauncher 250, CoveredSoldier 175, Bunker 400, Boss 1000 and 100 for any
  other type; the kill count grows by one per enemy destroyed; and \<open>onBossDefeated\<close>,
  when it was passed, is called once for each destroyed enemy of type Boss and for no
  other. An enemy is destroyed exactly when its \<open>takeDamage\<close> returns true: the boss
  callback, the destructions and the score reports of the call are, in order, the
  ones its \<open>takeDamage\<close> calls award, and the counters end where those calls put them.
  Every enemy destroyed leaves the array, so none is destroyed twice, and no dead
  enemy stays in an array that held none.
\<close>

theorem scoring:
  "score (checkCollisions ov cb rnd now w)
     = score w + sum_list (map (\<lambda>e. getPointsForEnemy (etype e))
                             (destroyedIn (trace ov cb rnd now w)))
   \<and> kills (checkCollisions ov cb rnd now w)
     = kills w + int (length (destroyedIn (trace ov cb rnd now w)))
   \<and> count_list (trace ov cb rnd now w) BossDefeated
     = (if cb then length (filter (\<lambda>e. etype e = BOSS) (destroyedIn (trace ov cb rnd now w)))
        else 0)
   \<and> getPointsForEnemy SOLDIER = 100 \<and> getPointsForEnemy TANK = 300
   \<and> getPointsForEnemy JEEP = 200 \<and> getPointsForEnemy KNIFE_SOLDIER = 150
   \<and> getPointsForEnemy ROCKET_LAUNCHER = 250 \<and> getPointsForEnemy COVERED_SOLDIER = 175
   \<and> getPointsForEnemy BUNKER = 400 \<and> getPointsForEnemy BOSS = 1000
   \<and> (t \<notin> {SOLDIER, TANK, JEEP, KNIFE_SOLDIER, ROCKET_LAUNCHER, COVERED_SOLDIER, BUNKER, BOSS}
        \<longrightarrow> getPointsForEnemy t = 100)
   \<and> filter isAward (trace ov cb rnd now w)
     = awarded cb rnd (drawn w, score w, kills w) (trace ov cb rnd now w)
   \<and> tally rnd (drawn w, score w, kills w) (trace ov cb rnd now w)
     = (drawn (checkCollisions ov cb rnd now w), score (checkCollisions ov cb rnd now w),
        kills (checkCollisions ov cb rnd now w))
   \<and> length (enemies (checkCollisions ov cb rnd now w))
       + length (destroyedIn (trace ov cb rnd now w)) = length (enemies w)
   \<and> ((\<forall>e \<in> set (enemies w). 0 < health e)
        \<longrightarrow> (\<forall>e \<in> set (enemies (checkCollisions ov cb rnd now w)). 0 < health e))"
proof -
  let ?w2 = "afterGrenades ov cb rnd w"
  let ?tr = "trace ov cb rnd now w"
  have s: "scoredStep cb w ?w2"
    by (rule scored_afterGrenades)
  have d: "destroyedIn ?tr = destroyedIn (newEvents w ?w2)"
    by (simp add: trace_two destroyedIn_append last_destroyed)
  have c: "count_list ?tr BossDefeated = count_list (newEvents w ?w2) BossDefeated"
    by (simp add: trace_two last_boss)
  have a: "score (checkCollisions ov cb rnd now w)
             = score w + sum_list (map (\<lambda>e. getPointsForEnemy (etype e)) (destroyedIn ?tr))"
    using s by (simp add: check_score d scoredStep_def points_def comp_def)
  have b: "kills (checkCollisions ov cb rnd now w) = kills w + int (length (destroyedIn ?tr))"
    using s by (simp add: check_score d scoredStep_def)
  have e: "count_list ?tr BossDefeated
             = (if cb then length (filter (\<lambda>e. etype e = BOSS) (destroyedIn ?tr)) else 0)"
    using s unfolding c d scoredStep_def bossKills_def by blast
  have old: "score (checkCollisions ov cb rnd now w)
     = score w + sum_list (map (\<lambda>e. getPointsForEnemy (etype e)) (destroyedIn ?tr))
   \<and> kills (checkCollisions ov cb rnd now w) = kills w + int (length (destroyedIn ?tr))
   \<and> count_list ?tr BossDefeated
     = (if cb then length (filter (\<lambda>e. etype e = BOSS) (destroyedIn ?tr)) else 0)
   \<and> getPointsForEnemy SOLDIER = 100 \<and> getPointsForEnemy TANK = 300
   \<and> getPointsForEnemy JEEP = 200 \<and> getPointsForEnemy KNIFE_SOLDIER = 150
   \<and> getPointsForEnemy ROCKET_LAUNCHER = 250 \<and> getPointsForEnemy COVERED_SOLDIER = 175
   \<and> getPointsForEnemy BUNKER = 400 \<and> getPointsForEnemy BOSS = 1000
   \<and> (t \<notin> {SOLDIER, TANK, JEEP, KNIFE_SOLDIER, ROCKET_LAUNCHER, COVERED_SOLDIER, BUNKER, BOSS}
        \<longrightarrow> getPointsForEnemy t = 100)"
    using a b e points_table points_default [of t] by simp
  have aw: "awardStep cb rnd w (checkCollisions ov cb rnd now w)"
    by (rule award_check)
  have f: "filter isAward ?tr = awarded cb rnd (drawn w, score w, kills w) ?tr"
    using aw by (simp add: awardStep_def trace_newEvents counters_def)
  have g: "tally rnd (drawn w, score w, kills w) ?tr
             = (drawn (checkCollisions ov cb rnd now w), score (checkCollisions ov cb rnd now w),
                kills (checkCollisions ov cb rnd now w))"
    using aw by (simp add: awardStep_def trace_newEvents counters_def)
  have h: "length (enemies (checkCollisions ov cb rnd now w)) + length (destroyedIn ?tr)
             = length (enemies w)"
    using aw by (simp add: awardStep_def trace_newEvents)
  have i: "(\<forall>e \<in> set (enemies w). 0 < health e)
             \<longrightarrow> (\<forall>e \<in> set (enemies (checkCollisions ov cb rnd now w)). 0 < health e)"
    using aw unfolding awardStep_def by blast
  show ?thesis
    apply (rule conjI [OF conjunct1 [OF old]])
    apply (rule conjI [OF conjunct1 [OF conjunct2 [OF old]]])
    apply (insert old f g h i)
    apply blast
    done
qed

theorem scoring_witness:
  "''MINE'' \<notin> {SOLDIER, TANK, JEEP, KNIFE_SOLDIER, ROCKET_LAUNCHER, COVERED_SOLDIER,
                  BUNKER, BOSS}
   \<and> getPointsForEnemy ''MINE'' = 100
   \<and> score (checkCollisions samePlace True (\<lambda>k. 0) 0 demoWorld) = 100
   \<and> kills (checkCollisions samePlace True (\<lambda>k. 0) 0 demoWorld) = 1
   \<and> count_list (trace samePlace True (\<lambda>k. 0) 0 demoWorld) BossDefeated = 0
   \<and> list_all (\<lambda>e. 0 < health e) (enemies demoWorld)
   \<and> list_all (\<lambda>e. 0 < health e)
        (enemies (checkCollisions samePlace True (\<lambda>k. 0) 0 demoWorld))
   \<and> length (enemies (checkCollisions samePlace True (\<lambda>k. 0) 0 demoWorld)) = 3
   \<and> filter isAward (trace samePlace True (\<lambda>k. 0) 0 demoWorld)
       = [Destroyed (nearSoldier\<lparr>health := 0\<rparr>), ScoreUpdate 100 1]
   \<and> score (checkCollisions samePlace True (\<lambda>k. 0) 0 bossWorld) = 1000
   \<and> kills (checkCollisions samePlace True (\<lambda>k. 0) 0 bossWorld) = 1
   \<and> count_list (trace samePlace True (\<lambda>k. 0) 0 bossWorld) BossDefeated = 1
   \<and> score (checkCollisions samePlace True (\<lambda>k. 0) 0 twoBulletWorld) = 100
   \<and> kills (checkCollisions samePlace True (\<lambda>k. 0) 0 twoBulletWorld) = 1
   \<and> length (enemies (checkCollisions samePlace True (\<lambda>k. 0) 0 twoBulletWorld)) = 0"
proof -
  have h: "''MINE'' \<notin> {SOLDIER, TANK, JEEP, KNIFE_SOLDIER, ROCKET_LAUNCHER, COVERED_SOLDIER,
                          BUNKER, BOSS}"
    by (simp add: SOLDIER_def TANK_def JEEP_def KNIFE_SOLDIER_def ROCKET_LAUNCHER_def
          COVERED_SOLDIER_def BUNKER_def BOSS_def)
  have al: "\<forall>e \<in> set (enemies demoWorld). 0 < health e"
    by (simp add: demo_defs)
  have al2: "list_all (\<lambda>e. 0 < health e) (enemies demoWorld)"
    using al by (simp add: list_all_iff)
  have d: "score demoWorld = 0" "kills demoWorld = 0" "score bossWorld = 0" "kills bossWorld = 0"
    "score twoBulletWorld = 0" "kills twoBulletWorld = 0"
    "length (enemies demoWorld) = 4" "length (enemies twoBulletWorld) = 1"
    by (simp_all add: demoWorld_def bossWorld_def twoBulletWorld_def)
  have pick: "score (checkCollisions samePlace True (\<lambda>k. 0) 0 W)
       = score W + sum_list (map (\<lambda>e. getPointsForEnemy (etype e))
                               (destroyedIn (trace samePlace True (\<lambda>k. 0) 0 W)))
     \<and> kills (checkCollisions samePlace True (\<lambda>k. 0) 0 W)
       = kills W + int (length (destroyedIn (trace samePlace True (\<lambda>k. 0) 0 W)))
     \<and> count_list (trace samePlace True (\<lambda>k. 0) 0 W) BossDefeated
       = (if True
          then length (filter (\<lambda>e. etype e = BOSS)
                         (destroyedIn (trace samePlace True (\<lambda>k. 0) 0 W)))
          else 0)
     \<and> getPointsForEnemy SOLDIER = 100 \<and> getPointsForEnemy BOSS = 1000
     \<and> (''MINE'' \<notin> {SOLDIER, TANK, JEEP, KNIFE_SOLDIER, ROCKET_LAUNCHER, COVERED_SOLDIER,
                       BUNKER, BOSS} \<longrightarrow> getPointsForEnemy ''MINE'' = 100)
     \<and> length (enemies (checkCollisions samePlace True (\<lambda>k. 0) 0 W))
         + length (destroyedIn (trace samePlace True (\<lambda>k. 0) 0 W)) = length (enemies W)
     \<and> ((\<forall>e \<in> set (enemies W). 0 < health e)
          \<longrightarrow> (\<forall>e \<in> set (enemies (checkCollisions samePlace True (\<lambda>k. 0) 0 W)).
                 0 < health e))" for W
    using scoring [of samePlace True "\<lambda>k. 0" 0 W "''MINE''"]
    by (elim conjE) (intro conjI; assumption)
  have a: "getPointsForEnemy ''MINE'' = 100
           \<and> score (checkCollisions samePlace True (\<lambda>k. 0) 0 demoWorld) = 100
           \<and> kills (checkCollisions samePlace True (\<lambda>k. 0) 0 demoWorld) = 1
           \<and> count_list (trace samePlace True (\<lambda>k. 0) 0 demoWorld) BossDefeated = 0
           \<and> length (enemies (checkCollisions samePlace True (\<lambda>k. 0) 0 demoWorld)) = 3
           \<and> list_all (\<lambda>e. 0 < health e)
                (enemies (checkCollisions samePlace True (\<lambda>k. 0) 0 demoWorld))"
    using h al d pick [of demoWorld]
    by (simp add: demo_trace nearSoldier_def Enemy_new_def list_all_iff)
  have a3: "filter isAward (trace samePlace True (\<lambda>k. 0) 0 demoWorld)
              = [Destroyed (nearSoldier\<lparr>health := 0\<rparr>), ScoreUpdate 100 1]"
    by (simp add: demo_trace)
  have b: "score (checkCollisions samePlace True (\<lambda>k. 0) 0 bossWorld) = 1000
           \<and> kills (checkCollisions samePlace True (\<lambda>k. 0) 0 bossWorld) = 1
           \<and> count_list (trace samePlace True (\<lambda>k. 0) 0 bossWorld) BossDefeated = 1"
    using d pick [of bossWorld] by (simp add: boss_trace lastStandBoss_def Boss_new_def)
  have c: "score (checkCollisions samePlace True (\<lambda>k. 0) 0 twoBulletWorld) = 100
           \<and> kills (checkCollisions samePlace True (\<lambda>k. 0) 0 twoBulletWorld) = 1
           \<and> length (enemies (checkCollisions samePlace True (\<lambda>k. 0) 0 twoBulletWorld)) = 0"
    using d pick [of twoBulletWorld]
    by (simp add: twoBullet_trace nearSoldier_def Enemy_new_def)
  show ?thesis
    using h al2 a a3 b c by simp
qed

end
